theory Spec2Isabelle
  imports Main "HOL-Library.Sublist" "HOL-Library.Multiset"
begin

section \<open>Cards and the zone state (src/core/models.py, src/core/engine.py)\<close>

text \<open>
  A \<open>Card\<close> is a Pydantic model.  Python lists hold references to card objects, and the
  engine uses two notions of sameness: \<open>id(card)\<close> (object identity, for the set of tapped
  objects) and \<open>==\<close> (Pydantic's field-wise equality, used by \<open>in\<close>, \<open>list.remove\<close>,
  \<open>!=\<close>).  The record carries the object identity as the field \<open>ident\<close>; every other field
  is a field of the Python class.  Dictionaries are association lists in insertion order
  (keys distinct), Python's unbounded integers are \<open>int\<close>, strings are ASCII \<open>string\<close>s.
\<close>

record card =
  ident :: nat
  name :: string
  mana_cost :: "(string \<times> int) list"
  cmc :: int
  type_line :: string
  oracle_text :: string
  tags :: "string list"
  scryfall_id :: string
  color_identity :: "string list"

text \<open>Python's \<open>sub in s\<close> on strings: \<open>sub\<close> occurs in \<open>s\<close> as a contiguous block.\<close>

fun str_in :: "string \<Rightarrow> string \<Rightarrow> bool" where
  "str_in sub [] = (sub = [])"
| "str_in sub (c # cs) = (prefix sub (c # cs) \<or> str_in sub cs)"

text \<open>\<open>Card.__eq__\<close>: all fields equal; two dictionaries are equal when they hold the same items.\<close>

definition card_eq :: "card \<Rightarrow> card \<Rightarrow> bool" where
  "card_eq c d \<longleftrightarrow>
     name c = name d \<and> set (mana_cost c) = set (mana_cost d) \<and> cmc c = cmc d \<and>
     type_line c = type_line d \<and> oracle_text c = oracle_text d \<and> tags c = tags d \<and>
     scryfall_id c = scryfall_id d \<and> color_identity c = color_identity d"

text \<open>\<open>card in cards\<close> and \<open>cards.remove(card)\<close> (the first element equal to \<open>card\<close> goes;
  every call of \<open>remove\<close> in the engine comes after a membership test or takes the card from
  the very list, so its \<open>ValueError\<close> is never raised).\<close>

definition card_in :: "card \<Rightarrow> card list \<Rightarrow> bool" where
  "card_in c cs = list_ex (card_eq c) cs"

fun list_remove :: "card \<Rightarrow> card list \<Rightarrow> card list" where
  "list_remove c [] = []"
| "list_remove c (x # xs) = (if card_eq x c then xs else x # list_remove c xs)"

definition is_land :: "card \<Rightarrow> bool" where
  "is_land c = str_in ''Land'' (type_line c)"

definition is_permanent :: "card \<Rightarrow> bool" where
  "is_permanent c =
     (if str_in ''Instant'' (type_line c) \<or> str_in ''Sorcery'' (type_line c) then False
      else True)"

record game_state =
  library :: "card list"
  hand :: "card list"
  battlefield :: "card list"
  graveyard :: "card list"
  mana_pool :: "(string \<times> int) list"
  turn_counter :: int
  land_played_this_turn :: "card option"
  cards_played_this_turn :: "card list"
  commander :: "card option"

definition init_state :: game_state where
  "init_state = \<lparr> library = [], hand = [], battlefield = [], graveyard = [], mana_pool = [],
     turn_counter = 0, land_played_this_turn = None, cards_played_this_turn = [],
     commander = None \<rparr>"

datatype error = ValueError

subsection \<open>Dictionary primitives\<close>

text \<open>\<open>d.get(k, 0)\<close>, \<open>d[k] = v\<close> (an existing key keeps its place, a new one goes last) and
  \<open>sum(d.values())\<close>.\<close>

fun dict_get :: "(string \<times> int) list \<Rightarrow> string \<Rightarrow> int" where
  "dict_get [] k = 0"
| "dict_get ((k', v) # d) k = (if k' = k then v else dict_get d k)"

fun dict_set :: "(string \<times> int) list \<Rightarrow> string \<Rightarrow> int \<Rightarrow> (string \<times> int) list" where
  "dict_set [] k v = [(k, v)]"
| "dict_set ((k', v') # d) k v = (if k' = k then (k, v) # d else (k', v') # dict_set d k v)"

definition dict_total :: "(string \<times> int) list \<Rightarrow> int" where
  "dict_total d = sum_list (map snd d)"

subsection \<open>GameState operations\<close>

definition draw_card :: "game_state \<Rightarrow> card option \<times> game_state" where
  "draw_card s =
     (case library s of
        [] \<Rightarrow> (None, s)
      | c # rest \<Rightarrow> (Some c, s\<lparr> library := rest, hand := hand s @ [c] \<rparr>))"

definition play_land :: "game_state \<Rightarrow> card \<Rightarrow> bool \<times> game_state" where
  "play_land s c =
     (if land_played_this_turn s \<noteq> None then (False, s)
      else if \<not> card_in c (hand s) then (False, s)
      else if \<not> is_land c then (False, s)
      else (True, s\<lparr> hand := list_remove c (hand s),
                      battlefield := battlefield s @ [c],
                      land_played_this_turn := Some c,
                      cards_played_this_turn := cards_played_this_turn s @ [c] \<rparr>))"

definition can_afford :: "game_state \<Rightarrow> (string \<times> int) list \<Rightarrow> bool" where
  "can_afford s cost = (dict_total (mana_pool s) \<ge> dict_total cost)"

definition get_total_mana :: "game_state \<Rightarrow> int" where
  "get_total_mana s = dict_total (mana_pool s)"

text \<open>The loop \<open>for color, amount in mana_cost.items(): pool[color] = pool.get(color, 0) - amount\<close>.\<close>

fun pay_cost :: "(string \<times> int) list \<Rightarrow> (string \<times> int) list \<Rightarrow> (string \<times> int) list" where
  "pay_cost pool [] = pool"
| "pay_cost pool ((color, amount) # cost) =
     pay_cost (dict_set pool color (dict_get pool color - amount)) cost"

definition cast_spell ::
  "game_state \<Rightarrow> card \<Rightarrow> (string \<times> int) list \<Rightarrow> error + (bool \<times> game_state)" where
  "cast_spell s c cost =
     (if \<not> card_in c (hand s) then Inr (False, s)
      else if \<not> can_afford s cost then Inl ValueError
      else
        let s1 = s\<lparr> mana_pool := pay_cost (mana_pool s) cost \<rparr>;
            s2 = s1\<lparr> hand := list_remove c (hand s1) \<rparr>
        in if is_permanent c
           then Inr (True, s2\<lparr> battlefield := battlefield s2 @ [c],
                                cards_played_this_turn := cards_played_this_turn s2 @ [c] \<rparr>)
           else Inr (True, s2\<lparr> graveyard := graveyard s2 @ [c] \<rparr>))"

text \<open>The loop \<open>for color, amount in mana.items(): pool[color] = pool.get(color, 0) + amount\<close>.\<close>

fun add_to_pool :: "(string \<times> int) list \<Rightarrow> (string \<times> int) list \<Rightarrow> (string \<times> int) list" where
  "add_to_pool pool [] = pool"
| "add_to_pool pool ((color, amount) # mana) =
     add_to_pool (dict_set pool color (dict_get pool color + amount)) mana"

definition add_mana :: "game_state \<Rightarrow> (string \<times> int) list \<Rightarrow> game_state" where
  "add_mana s mana = s\<lparr> mana_pool := add_to_pool (mana_pool s) mana \<rparr>"

definition clear_mana_pool :: "game_state \<Rightarrow> game_state" where
  "clear_mana_pool s = s\<lparr> mana_pool := [], cards_played_this_turn := [] \<rparr>"

subsection \<open>Sequences of GameState operations\<close>

text \<open>A caller of \<open>GameState\<close> issues any sequence of its five operations; an exception
  ends the sequence.  \<open>run_ops\<close> lists the states reached, one per completed operation.\<close>

datatype gs_op =
    DrawCard
  | PlayLand card
  | CastSpell card "(string \<times> int) list"
  | AddMana "(string \<times> int) list"
  | ClearManaPool

fun apply_op :: "game_state \<Rightarrow> gs_op \<Rightarrow> error + game_state" where
  "apply_op s DrawCard = Inr (snd (draw_card s))"
| "apply_op s (PlayLand c) = Inr (snd (play_land s c))"
| "apply_op s (CastSpell c cost) =
     (case cast_spell s c cost of Inl e \<Rightarrow> Inl e | Inr (ok, s') \<Rightarrow> Inr s')"
| "apply_op s (AddMana mana) = Inr (add_mana s mana)"
| "apply_op s ClearManaPool = Inr (clear_mana_pool s)"

fun run_ops :: "game_state \<Rightarrow> gs_op list \<Rightarrow> game_state list" where
  "run_ops s [] = []"
| "run_ops s (op # ops) =
     (case apply_op s op of Inl e \<Rightarrow> [] | Inr s' \<Rightarrow> s' # run_ops s' ops)"

definition pool_nonneg :: "(string \<times> int) list \<Rightarrow> bool" where
  "pool_nonneg d = list_all (\<lambda>(k, v). 0 \<le> v) d"

fun adds_nonneg :: "gs_op \<Rightarrow> bool" where
  "adds_nonneg (AddMana mana) = pool_nonneg mana"
| "adds_nonneg _ = True"

fun is_cast :: "gs_op \<Rightarrow> bool" where
  "is_cast (CastSpell c cost) = True"
| "is_cast _ = False"

section \<open>The capability classifier (src/core/tags.py)\<close>

subsection \<open>String helpers\<close>

text \<open>\<open>str.lower()\<close> and \<open>str.upper()\<close> on ASCII text.\<close>

definition lower_char :: "char \<Rightarrow> char" where
  "lower_char c =
     (case map_of (zip ''ABCDEFGHIJKLMNOPQRSTUVWXYZ'' ''abcdefghijklmnopqrstuvwxyz'') c of
        Some d \<Rightarrow> d | None \<Rightarrow> c)"

definition upper_char :: "char \<Rightarrow> char" where
  "upper_char c =
     (case map_of (zip ''abcdefghijklmnopqrstuvwxyz'' ''ABCDEFGHIJKLMNOPQRSTUVWXYZ'') c of
        Some d \<Rightarrow> d | None \<Rightarrow> c)"

definition lower :: "string \<Rightarrow> string" where
  "lower s = map lower_char s"

definition upper :: "string \<Rightarrow> string" where
  "upper s = map upper_char s"

subsection \<open>Regular expressions\<close>

text \<open>
  The fragment of Python's \<open>re\<close> syntax that the classifier's patterns use: literals,
  the classes \<open>.\<close> (any character but a newline), \<open>\s\<close> and \<open>\d\<close>, greedy \<open>*\<close> and \<open>+\<close> on
  a class, sequence, alternation, \<open>?\<close>, and one marked group whose text the caller reads.
  \<open>rmatch r s\<close> lists, in the order in which a backtracking matcher tries them, the ways
  \<open>r\<close> matches a prefix of \<open>s\<close>: the text of the marked group (empty when it took no part)
  and the rest of \<open>s\<close>.  \<open>re_search\<close> returns the first match at the leftmost position.
\<close>

datatype cclass = AnyChar | Space | Digit

fun in_class :: "cclass \<Rightarrow> char \<Rightarrow> bool" where
  "in_class AnyChar c = (c \<noteq> CHR 0x0A)"
| "in_class Space c =
     (c \<in> set [CHR '' '', CHR 0x09, CHR 0x0A, CHR 0x0B, CHR 0x0C, CHR 0x0D,
                CHR 0x1C, CHR 0x1D, CHR 0x1E, CHR 0x1F])"
| "in_class Digit c = (c \<in> set ''0123456789'')"

datatype regex =
    Lit string
  | Star cclass
  | Plus cclass
  | Seq regex regex
  | Alt regex regex
  | Opt regex
  | Cap regex

fun star_rests :: "cclass \<Rightarrow> string \<Rightarrow> string list" where
  "star_rests k [] = [[]]"
| "star_rests k (c # cs) = (if in_class k c then star_rests k cs @ [c # cs] else [c # cs])"

fun rmatch :: "regex \<Rightarrow> string \<Rightarrow> (string \<times> string) list" where
  "rmatch (Lit w) s = (if prefix w s then [([], drop (length w) s)] else [])"
| "rmatch (Star k) s = map (Pair []) (star_rests k s)"
| "rmatch (Plus k) s =
     (case s of [] \<Rightarrow> []
      | c # cs \<Rightarrow> if in_class k c then map (Pair []) (star_rests k cs) else [])"
| "rmatch (Seq a b) s =
     concat (map (\<lambda>(g, r). map (\<lambda>(g', r'). (if g' = [] then g else g', r')) (rmatch b r))
               (rmatch a s))"
| "rmatch (Alt a b) s = rmatch a s @ rmatch b s"
| "rmatch (Opt a) s = rmatch a s @ [([], s)]"
| "rmatch (Cap a) s = map (\<lambda>(g, r). (take (length s - length r) s, r)) (rmatch a s)"

fun re_search :: "regex \<Rightarrow> string \<Rightarrow> string option" where
  "re_search r [] = (case rmatch r [] of [] \<Rightarrow> None | (g, rest) # _ \<Rightarrow> Some g)"
| "re_search r (c # cs) =
     (case rmatch r (c # cs) of [] \<Rightarrow> re_search r cs | (g, rest) # _ \<Rightarrow> Some g)"

definition re_test :: "regex \<Rightarrow> string \<Rightarrow> bool" where
  "re_test r s = (re_search r s \<noteq> None)"

text \<open>\<open>re.search(p, s, re.IGNORECASE)\<close> for a pattern written in lower case.\<close>

definition re_test_ignorecase :: "regex \<Rightarrow> string \<Rightarrow> bool" where
  "re_test_ignorecase r s = re_test r (lower s)"

definition seqs :: "regex list \<Rightarrow> regex" where
  "seqs rs = foldr Seq (butlast rs) (last rs)"

definition alts :: "regex list \<Rightarrow> regex" where
  "alts rs = foldr Alt (butlast rs) (last rs)"

subsection \<open>The patterns of \<open>assign_tags\<close>\<close>

text \<open>\<^verbatim>\<open>add\s+.*(\{.*\})|add\s+(one|two|three|any)\s+mana\<close>\<close>

definition re_mana :: regex where
  "re_mana =
     Alt (seqs [Lit ''add'', Plus Space, Star AnyChar, Lit ''{'', Star AnyChar, Lit ''}''])
         (seqs [Lit ''add'', Plus Space,
                alts [Lit ''one'', Lit ''two'', Lit ''three'', Lit ''any''],
                Plus Space, Lit ''mana''])"

text \<open>\<^verbatim>\<open>draw (a card|cards|\d+ cards?|two cards?|three cards?|four cards?)\<close>\<close>

definition re_draw :: regex where
  "re_draw =
     Seq (Lit ''draw '')
       (alts [Lit ''a card'', Lit ''cards'',
              seqs [Plus Digit, Lit '' card'', Opt (Lit ''s'')],
              Seq (Lit ''two card'') (Opt (Lit ''s'')),
              Seq (Lit ''three card'') (Opt (Lit ''s'')),
              Seq (Lit ''four card'') (Opt (Lit ''s''))])"

text \<open>\<^verbatim>\<open>destroy all (creatures|permanents)\<close>\<close>

definition re_wipe :: regex where
  "re_wipe = Seq (Lit ''destroy all '') (Alt (Lit ''creatures'') (Lit ''permanents''))"

text \<open>\<^verbatim>\<open>search your library for a card\<close>\<close>

definition re_tutor :: regex where
  "re_tutor = Lit ''search your library for a card''"

text \<open>\<^verbatim>\<open>(this\s+(land|artifact)\s+)?(enters?|enter)\s+(the\s+battlefield\s+)?tapped\<close>\<close>

definition re_tapped :: regex where
  "re_tapped =
     seqs [Opt (seqs [Lit ''this'', Plus Space, Alt (Lit ''land'') (Lit ''artifact''), Plus Space]),
           Alt (Seq (Lit ''enter'') (Opt (Lit ''s''))) (Lit ''enter''),
           Plus Space,
           Opt (seqs [Lit ''the'', Plus Space, Lit ''battlefield'', Plus Space]),
           Lit ''tapped'']"

text \<open>\<^verbatim>\<open>unless you control (two or more|2 or more) basic lands\<close>\<close>

definition re_two_basics :: regex where
  "re_two_basics =
     seqs [Lit ''unless you control '', Alt (Lit ''two or more'') (Lit ''2 or more''),
           Lit '' basic lands'']"

text \<open>\<^verbatim>\<open>unless you control (a|an) (plains|island|swamp|mountain|forest)\<close>\<close>

definition re_checkland :: regex where
  "re_checkland =
     seqs [Lit ''unless you control '', Alt (Lit ''a'') (Lit ''an''), Lit '' '',
           alts [Lit ''plains'', Lit ''island'', Lit ''swamp'', Lit ''mountain'', Lit ''forest'']]"

text \<open>\<^verbatim>\<open>(unless you (pay|reveal)|as .*(this\s+)?(land\s+)?enters.* you may (pay|reveal))\<close>\<close>

definition re_pay_reveal :: regex where
  "re_pay_reveal =
     Alt (Seq (Lit ''unless you '') (Alt (Lit ''pay'') (Lit ''reveal'')))
         (seqs [Lit ''as '', Star AnyChar, Opt (Seq (Lit ''this'') (Plus Space)),
                Opt (Seq (Lit ''land'') (Plus Space)), Lit ''enters'', Star AnyChar,
                Lit '' you may '', Alt (Lit ''pay'') (Lit ''reveal'')])"

text \<open>\<^verbatim>\<open>unless you control (two|2) or fewer other lands\<close>\<close>

definition re_fastland :: regex where
  "re_fastland =
     seqs [Lit ''unless you control '', Alt (Lit ''two'') (Lit ''2''),
           Lit '' or fewer other lands'']"

text \<open>\<^verbatim>\<open>unless you control (three|3) or more other .*(mountains|islands|plains|swamps|forests)\<close>;
  the marked group is group 2.\<close>

definition re_count :: regex where
  "re_count =
     seqs [Lit ''unless you control '', Alt (Lit ''three'') (Lit ''3''),
           Lit '' or more other '', Star AnyChar,
           Cap (alts [Lit ''mountains'', Lit ''islands'', Lit ''plains'', Lit ''swamps'',
                      Lit ''forests''])]"

text \<open>The words the marked group of \<open>re_count\<close> can hold.\<close>

definition basic_plurals :: "string list" where
  "basic_plurals = [''mountains'', ''islands'', ''plains'', ''swamps'', ''forests'']"

text \<open>\<^verbatim>\<open>unless an opponent (has|controls) more lands\<close>\<close>

definition re_opponent :: regex where
  "re_opponent =
     seqs [Lit ''unless an opponent '', Alt (Lit ''has'') (Lit ''controls''),
           Lit '' more lands'']"

text \<open>\<^verbatim>\<open>enters.*tapped.*if you control (three|3) or more\<close>\<close>

definition re_three_or_more :: regex where
  "re_three_or_more =
     seqs [Lit ''enters'', Star AnyChar, Lit ''tapped'', Star AnyChar,
           Lit ''if you control '', Alt (Lit ''three'') (Lit ''3''), Lit '' or more'']"

subsection \<open>The static table and \<open>assign_tags\<close>\<close>

definition STATIC_CARD_TAGS :: "(string \<times> string list) list" where
  "STATIC_CARD_TAGS = [
     (''Sol Ring'', [''RAMP'', ''ARTIFACT'', ''MANA_ROCK'']),
     (''Arcane Signet'', [''RAMP'', ''ARTIFACT'', ''MANA_ROCK'']),
     (''Mana Crypt'', [''RAMP'', ''ARTIFACT'', ''MANA_ROCK'']),
     (''Mana Vault'', [''RAMP'', ''ARTIFACT'', ''MANA_ROCK'']),
     (''Chrome Mox'', [''RAMP'', ''ARTIFACT'', ''MANA_ROCK'']),
     (''Mox Diamond'', [''RAMP'', ''ARTIFACT'', ''MANA_ROCK'']),
     (''Fellwar Stone'', [''RAMP'', ''ARTIFACT'', ''MANA_ROCK'']),
     (''Thought Vessel'', [''RAMP'', ''ARTIFACT'', ''MANA_ROCK'']),
     (''Mind Stone'', [''RAMP'', ''ARTIFACT'', ''MANA_ROCK'']),
     (''Talisman of Dominance'', [''RAMP'', ''ARTIFACT'', ''MANA_ROCK'']),
     (''Talisman of Progress'', [''RAMP'', ''ARTIFACT'', ''MANA_ROCK'']),
     (''Talisman of Creativity'', [''RAMP'', ''ARTIFACT'', ''MANA_ROCK'']),
     (''Talisman of Conviction'', [''RAMP'', ''ARTIFACT'', ''MANA_ROCK'']),
     (''Talisman of Hierarchy'', [''RAMP'', ''ARTIFACT'', ''MANA_ROCK'']),
     (''Coldsteel Heart'', [''RAMP'', ''ARTIFACT'', ''MANA_ROCK'', ''TAPPED_ENTRY'']),
     (''Fire Diamond'', [''RAMP'', ''ARTIFACT'', ''MANA_ROCK'', ''TAPPED_ENTRY'']),
     (''Marble Diamond'', [''RAMP'', ''ARTIFACT'', ''MANA_ROCK'', ''TAPPED_ENTRY'']),
     (''Sky Diamond'', [''RAMP'', ''ARTIFACT'', ''MANA_ROCK'', ''TAPPED_ENTRY'']),
     (''Moss Diamond'', [''RAMP'', ''ARTIFACT'', ''MANA_ROCK'', ''TAPPED_ENTRY'']),
     (''Charcoal Diamond'', [''RAMP'', ''ARTIFACT'', ''MANA_ROCK'', ''TAPPED_ENTRY'']),
     (''Star Compass'', [''RAMP'', ''ARTIFACT'', ''MANA_ROCK'', ''TAPPED_ENTRY'']),
     (''Prismatic Lens'', [''RAMP'', ''ARTIFACT'', ''MANA_ROCK'']),
     (''Thran Dynamo'', [''RAMP'', ''ARTIFACT'', ''MANA_ROCK'']),
     (''Hedron Archive'', [''RAMP'', ''ARTIFACT'', ''MANA_ROCK'']),
     (''Gilded Lotus'', [''RAMP'', ''ARTIFACT'', ''MANA_ROCK'']),
     (''Command Tower'', [''LAND'', ''RAMP'']),
     (''Arcane Lighthouse'', [''LAND'']),
     (''Reliquary Tower'', [''LAND'']),
     (''Urborg, Tomb of Yawgmoth'', [''LAND'', ''RAMP'']),
     (''Cabal Coffers'', [''LAND'', ''RAMP'']),
     (''Rampant Growth'', [''RAMP'', ''SORCERY'']),
     (''Cultivate'', [''RAMP'', ''SORCERY'']),
     ((''Kodama'' @ [CHR 0x27] @ ''s Reach''), [''RAMP'', ''SORCERY'']),
     (''Farseek'', [''RAMP'', ''SORCERY'']),
     ((''Nature'' @ [CHR 0x27] @ ''s Lore''), [''RAMP'', ''SORCERY'']),
     (''Three Visits'', [''RAMP'', ''SORCERY'']),
     (''Skyshroud Claim'', [''RAMP'', ''SORCERY'']),
     (''Llanowar Elves'', [''RAMP'', ''CREATURE'']),
     (''Arbor Elf'', [''RAMP'', ''CREATURE'']),
     (''Birds of Paradise'', [''RAMP'', ''CREATURE'']),
     (''Fyndhorn Elves'', [''RAMP'', ''CREATURE'']),
     (''Sakura-Tribe Elder'', [''RAMP'', ''CREATURE'']),
     (''Rhystic Study'', [''DRAW'', ''ENCHANTMENT'']),
     (''Mystic Remora'', [''DRAW'', ''ENCHANTMENT'']),
     (''Phyrexian Arena'', [''DRAW'', ''ENCHANTMENT'']),
     (''Sylvan Library'', [''DRAW'', ''ENCHANTMENT'']),
     (''Swords to Plowshares'', [''REMOVAL'', ''INSTANT'']),
     (''Path to Exile'', [''REMOVAL'', ''INSTANT'']),
     ((''Assassin'' @ [CHR 0x27] @ ''s Trophy''), [''REMOVAL'', ''INSTANT'']),
     (''Beast Within'', [''REMOVAL'', ''INSTANT'']),
     (''Chaos Warp'', [''REMOVAL'', ''INSTANT'']),
     (''Generous Gift'', [''REMOVAL'', ''INSTANT'']),
     (''Wrath of God'', [''BOARD_WIPE'', ''SORCERY'']),
     (''Damnation'', [''BOARD_WIPE'', ''SORCERY'']),
     (''Cyclonic Rift'', [''BOARD_WIPE'', ''INSTANT'']),
     (''Blasphemous Act'', [''BOARD_WIPE'', ''SORCERY'']),
     (''Counterspell'', [''COUNTERSPELL'', ''INSTANT'']),
     (''Swan Song'', [''COUNTERSPELL'', ''INSTANT'']),
     (''Mana Drain'', [''COUNTERSPELL'', ''INSTANT'']),
     (''Force of Will'', [''COUNTERSPELL'', ''INSTANT'']),
     (''Pact of Negation'', [''COUNTERSPELL'', ''INSTANT'']),
     (''Demonic Tutor'', [''TUTOR'', ''SORCERY'']),
     (''Vampiric Tutor'', [''TUTOR'', ''INSTANT'']),
     (''Worldly Tutor'', [''TUTOR'', ''INSTANT'']),
     (''Mystical Tutor'', [''TUTOR'', ''INSTANT'']),
     (''Enlightened Tutor'', [''TUTOR'', ''INSTANT''])]"

text \<open>
  \<open>tags\<close> is a Python set, returned as \<open>list(tags)\<close> in an order the language leaves open;
  the model keeps the tags in insertion order without repetition, and the engine only
  tests membership.  \<open>tag_add\<close> is \<open>tags.add\<close>, \<open>tag_update\<close> is \<open>tags.update\<close>, \<open>tag_if\<close>
  is an \<open>if\<close> around \<open>tags.add\<close>.
\<close>

definition tag_add :: "string \<Rightarrow> string list \<Rightarrow> string list" where
  "tag_add t ts = (if t \<in> set ts then ts else ts @ [t])"

definition tag_update :: "string list \<Rightarrow> string list \<Rightarrow> string list" where
  "tag_update new ts = foldl (\<lambda>acc t. tag_add t acc) ts new"

definition tag_if :: "bool \<Rightarrow> string \<Rightarrow> string list \<Rightarrow> string list" where
  "tag_if b t ts = (if b then tag_add t ts else ts)"

text \<open>Step 1: the static mapping.\<close>

definition static_tags :: "string \<Rightarrow> string list" where
  "static_tags card_name =
     (case map_of STATIC_CARD_TAGS card_name of
        Some ts \<Rightarrow> tag_update ts []
      | None \<Rightarrow> [])"

text \<open>Steps 2 and 3: tags from the type line.\<close>

definition type_tags :: "string \<Rightarrow> string list \<Rightarrow> string list" where
  "type_tags ty ts =
     tag_if (str_in ''Planeswalker'' ty) ''PLANESWALKER''
    (tag_if (str_in ''Sorcery'' ty) ''SORCERY''
    (tag_if (str_in ''Instant'' ty) ''INSTANT''
    (tag_if (str_in ''Enchantment'' ty) ''ENCHANTMENT''
    (tag_if (str_in ''Creature'' ty) ''CREATURE''
    (tag_if (str_in ''Artifact'' ty) ''ARTIFACT''
    (tag_if (str_in ''Land'' ty) ''LAND'' ts))))))"

text \<open>Step 4: tags from the oracle text, in the order of the source.\<close>

definition text_tags :: "string \<Rightarrow> string list \<Rightarrow> string list" where
  "text_tags otext ts =
     (let oracle_lower = lower otext in
      tag_if (re_test_ignorecase re_tapped otext) ''TAPPED_ENTRY''
     (tag_if (re_test_ignorecase re_tutor otext) ''TUTOR''
     (tag_if (str_in ''counter target spell'' oracle_lower) ''COUNTERSPELL''
     (tag_if (re_test re_wipe oracle_lower) ''BOARD_WIPE''
     (tag_if ((str_in ''destroy'' oracle_lower \<or> str_in ''exile'' oracle_lower \<or>
               str_in ''sacrifice'' oracle_lower) \<and>
              (str_in ''creature'' oracle_lower \<or> str_in ''permanent'' oracle_lower \<or>
               str_in ''target'' oracle_lower)) ''REMOVAL''
     (tag_if (re_test re_draw oracle_lower) ''DRAW''
     (tag_if (re_test re_mana oracle_lower) ''RAMP''
     (tag_if (re_test re_mana oracle_lower) ''MANA_ROCK''
     (tag_if (str_in ''search your library for a'' oracle_lower \<and> str_in ''land'' oracle_lower)
        ''RAMP'' ts)))))))))"

text \<open>The land-specific pass: the \<open>if\<close>/\<open>elif\<close> chain, first match wins.\<close>

definition land_conditions :: "string \<Rightarrow> string \<Rightarrow> string list \<Rightarrow> string list" where
  "land_conditions ty oracle_lower ts =
     (if str_in ''Land'' ty then
        if ''TAPPED_ENTRY'' \<in> set ts then
          if re_test re_two_basics oracle_lower then removeAll ''TAPPED_ENTRY'' ts
          else if re_test re_checkland oracle_lower then removeAll ''TAPPED_ENTRY'' ts
          else if re_test re_pay_reveal oracle_lower then removeAll ''TAPPED_ENTRY'' ts
          else if re_test re_fastland oracle_lower then tag_add ''COND_FASTLAND'' ts
          else case re_search re_count oracle_lower of
            Some land_type \<Rightarrow> tag_add (''COND_COUNT_3_'' @ butlast (upper land_type)) ts
          | None \<Rightarrow>
              if re_test re_opponent oracle_lower then ts
              else if re_test re_three_or_more oracle_lower then removeAll ''TAPPED_ENTRY'' ts
              else ts
        else ts
      else ts)"

definition assign_tags :: "string \<Rightarrow> string \<Rightarrow> string \<Rightarrow> string list" where
  "assign_tags card_name ty otext =
     land_conditions ty (lower otext)
       (text_tags otext (type_tags ty (static_tags card_name)))"

section \<open>The turn engine (src/core/engine.py, class GameEngine)\<close>

text \<open>
  The event log, the verbose printing and the Monte-Carlo statistics do not influence the
  game state and are left out.

  \<open>random.shuffle(x)\<close> is the Fisher-Yates loop of the Python library,
  \<^verbatim>\<open>for i in reversed(range(1, len(x))): j = randbelow(i + 1); x[i], x[j] = x[j], x[i]\<close>.
  The random generator is a parameter \<open>rnd :: nat \<Rightarrow> nat \<Rightarrow> nat\<close>: in the \<open>k\<close>-th call of
  \<open>random.shuffle\<close> of a run, \<open>randbelow(i + 1)\<close> returns \<open>rnd k i mod (i + 1)\<close>.  The engine
  threads the number \<open>k\<close> of calls made so far.  A theorem that holds for every \<open>rnd\<close> holds
  for every outcome of the random generator.
\<close>

type_synonym rng = "nat \<Rightarrow> nat \<Rightarrow> nat"

primrec swaps :: "(nat \<Rightarrow> nat) \<Rightarrow> nat \<Rightarrow> 'a list \<Rightarrow> 'a list" where
  "swaps r 0 xs = xs"
| "swaps r (Suc i) xs =
     (let j = r (Suc i) mod (Suc (Suc i)) in swaps r i (xs[Suc i := xs ! j, j := xs ! Suc i]))"

definition shuffle :: "rng \<Rightarrow> nat \<Rightarrow> 'a list \<Rightarrow> 'a list" where
  "shuffle rnd k xs = swaps (rnd k) (length xs - 1) xs"

text \<open>\<open>s.capitalize()\<close> and \<open>s.split("_")[-1]\<close>.\<close>

definition capitalize :: "string \<Rightarrow> string" where
  "capitalize s = (case s of [] \<Rightarrow> [] | c # cs \<Rightarrow> upper_char c # lower cs)"

definition last_segment :: "string \<Rightarrow> string" where
  "last_segment s = rev (takeWhile (\<lambda>c. c \<noteq> CHR ''_'') (rev s))"

text \<open>\<open>card == self.state.land_played_this_turn\<close>; a card never equals \<open>None\<close>.\<close>

definition eq_land_played :: "game_state \<Rightarrow> card \<Rightarrow> bool" where
  "eq_land_played s c =
     (case land_played_this_turn s of None \<Rightarrow> False | Some lp \<Rightarrow> card_eq c lp)"

definition check_enters_tapped :: "game_state \<Rightarrow> card \<Rightarrow> bool" where
  "check_enters_tapped s c =
     (if ''TAPPED_ENTRY'' \<notin> set (tags c) then False
      else if ''COND_FASTLAND'' \<in> set (tags c) \<and>
              length (filter (\<lambda>b. is_land b \<and> \<not> card_eq b c) (battlefield s)) \<le> 2
      then False
      else if list_ex (\<lambda>tag. prefix ''COND_COUNT_3_'' tag \<and>
                3 \<le> length (filter (\<lambda>b. is_land b \<and> \<not> card_eq b c \<and>
                                        str_in (capitalize (last_segment tag)) (type_line b))
                               (battlefield s))) (tags c)
      then False
      else True)"

subsection \<open>The mana sweep\<close>

definition land_untapped :: "game_state \<Rightarrow> nat set \<Rightarrow> card \<Rightarrow> bool" where
  "land_untapped s tapped land =
     (if ident land \<in> tapped then False
      else if ''FETCH_LAND'' \<in> set (tags land) then False
      else if card_in land (cards_played_this_turn s) \<and> ''TAPPED_ENTRY'' \<in> set (tags land)
      then False
      else if eq_land_played s land \<and> check_enters_tapped s land then False
      else True)"

definition untapped_lands :: "game_state \<Rightarrow> nat set \<Rightarrow> card list" where
  "untapped_lands s tapped = filter (land_untapped s tapped) (filter is_land (battlefield s))"

text \<open>\<open>for land in untapped_lands: add_mana({"colorless": 1}); tapped_objects.add(id(land))\<close>\<close>

fun tap_lands :: "card list \<Rightarrow> nat set \<times> game_state \<Rightarrow> nat set \<times> game_state" where
  "tap_lands [] (tapped, s) = (tapped, s)"
| "tap_lands (land # rest) (tapped, s) =
     tap_lands rest (insert (ident land) tapped, add_mana s [(''colorless'', 1)])"

definition mana_rocks :: "game_state \<Rightarrow> card list" where
  "mana_rocks s =
     filter (\<lambda>c. ''MANA_ROCK'' \<in> set (tags c) \<and> ''ARTIFACT'' \<in> set (tags c)) (battlefield s)"

text \<open>The loop over the mana rocks; the third component is \<open>mana_added_this_loop\<close>.\<close>

fun tap_rocks ::
  "card list \<Rightarrow> nat set \<times> game_state \<times> bool \<Rightarrow> nat set \<times> game_state \<times> bool" where
  "tap_rocks [] (tapped, s, added) = (tapped, s, added)"
| "tap_rocks (artifact # rest) (tapped, s, added) =
     (if ident artifact \<in> tapped then tap_rocks rest (tapped, s, added)
      else if card_in artifact (cards_played_this_turn s) \<and>
              (''TAPPED_ENTRY'' \<in> set (tags artifact) \<or> str_in ''Creature'' (type_line artifact))
      then tap_rocks rest (tapped, s, added)
      else tap_rocks rest
             (insert (ident artifact) tapped, add_mana s [(''colorless'', 1)], True))"

definition mana_sweep :: "nat set \<times> game_state \<Rightarrow> nat set \<times> game_state \<times> bool" where
  "mana_sweep ts =
     (let lands = untapped_lands (snd ts) (fst ts);
          (tapped1, s1) = tap_lands lands ts
      in tap_rocks (mana_rocks s1) (tapped1, s1, lands \<noteq> []))"

subsection \<open>Casting\<close>

text \<open>The affordable non-land cards of the hand, and \<open>affordable.sort(key=cmc, reverse=True)\<close>
  followed by \<open>affordable[0]\<close>: a stable sort, so cards of equal \<open>cmc\<close> keep their hand order.\<close>

definition affordable :: "game_state \<Rightarrow> card list" where
  "affordable s =
     filter (\<lambda>c. can_afford s (mana_cost c)) (filter (\<lambda>c. \<not> is_land c) (hand s))"

definition choose_spell :: "game_state \<Rightarrow> card option" where
  "choose_spell s =
     (if affordable s = [] then None
      else Some (hd (sort_key (\<lambda>c. - cmc c) (affordable s))))"

text \<open>The cast block of one pass; the boolean is \<open>spell_cast_this_loop\<close>.\<close>

definition cast_phase :: "game_state \<Rightarrow> error + (bool \<times> game_state)" where
  "cast_phase s =
     (case choose_spell s of
        None \<Rightarrow> Inr (False, s)
      | Some spell \<Rightarrow> cast_spell s spell (mana_cost spell))"

subsection \<open>Fetch-land resolution\<close>

definition fetch_skipped :: "game_state \<Rightarrow> nat set \<Rightarrow> card \<Rightarrow> bool" where
  "fetch_skipped s tapped fetcher =
     (str_in ''{T}'' (oracle_text fetcher) \<and>
      (ident fetcher \<in> tapped \<or>
       (eq_land_played s fetcher \<and> ''TAPPED_ENTRY'' \<in> set (tags fetcher))))"

definition fetch_target :: "card \<Rightarrow> bool" where
  "fetch_target c =
     (is_land c \<and>
      (str_in ''Basic'' (type_line c) \<or>
       list_ex (\<lambda>x. str_in x (type_line c))
         [''Mountain'', ''Island'', ''Plains'', ''Swamp'', ''Forest'']))"

text \<open>\<open>target_land.tags.append("TAPPED_ENTRY")\<close> changes the card object itself; the object
  was just taken from the library and appended to the battlefield and to the cards played
  this turn, so these two lists are where the change shows.\<close>

definition force_tapped :: "card \<Rightarrow> card" where
  "force_tapped c =
     (if ''TAPPED_ENTRY'' \<notin> set (tags c) then c\<lparr> tags := tags c @ [''TAPPED_ENTRY''] \<rparr> else c)"

definition resolve_fetch_lands ::
  "rng \<Rightarrow> nat \<Rightarrow> nat set \<Rightarrow> game_state \<Rightarrow> bool \<times> nat \<times> game_state" where
  "resolve_fetch_lands rnd k tapped s =
     (let fetchers = filter (\<lambda>c. ''FETCH_LAND'' \<in> set (tags c)) (battlefield s) in
      case find (\<lambda>f. \<not> fetch_skipped s tapped f) fetchers of
        None \<Rightarrow> (False, k, s)
      | Some fetcher \<Rightarrow>
          let s1 = s\<lparr> battlefield := list_remove fetcher (battlefield s),
                      graveyard := graveyard s @ [fetcher] \<rparr>
          in case find fetch_target (library s1) of
               Some target_land \<Rightarrow>
                 let fetched = force_tapped target_land in
                 (True, Suc k,
                  s1\<lparr> library := shuffle rnd k (list_remove target_land (library s1)),
                      battlefield := battlefield s1 @ [fetched],
                      cards_played_this_turn := cards_played_this_turn s1 @ [fetched] \<rparr>)
             | None \<Rightarrow> (True, k, s1))"

subsection \<open>The main phase\<close>

text \<open>One pass of the \<open>while True\<close> loop.  The result says whether the loop goes on
  (\<open>True\<close>) or breaks (\<open>False\<close>).\<close>

definition loop_pass ::
  "rng \<Rightarrow> nat \<times> nat set \<times> game_state \<Rightarrow> error + (bool \<times> nat \<times> nat set \<times> game_state)" where
  "loop_pass rnd x =
     (case x of (k, tapped, s) \<Rightarrow>
      case mana_sweep (tapped, s) of (tapped', s', mana_added) \<Rightarrow>
      case cast_phase s' of
        Inl e \<Rightarrow> Inl e
      | Inr (spell_cast, s'') \<Rightarrow>
          if \<not> mana_added \<and> \<not> spell_cast
          then case resolve_fetch_lands rnd k tapped' s'' of
                 (fetched, k', s''') \<Rightarrow> Inr (fetched, k', tapped', s''')
          else Inr (True, k, tapped', s''))"

text \<open>What bounds the loop: the battlefield objects that can still be tapped this turn,
  the fetch-lands on the battlefield and in the library, and the hand, a hand card
  counting twice (it can be cast and then tapped) and once more if it is a fetch-land.\<close>

definition is_fetcher :: "card \<Rightarrow> bool" where
  "is_fetcher c = (''FETCH_LAND'' \<in> set (tags c))"

definition tappable :: "nat set \<Rightarrow> card list \<Rightarrow> card \<Rightarrow> bool" where
  "tappable tapped played b =
     (ident b \<notin> tapped \<and> \<not> (card_in b played \<and> ''TAPPED_ENTRY'' \<in> set (tags b)))"

definition loop_budget :: "nat set \<Rightarrow> game_state \<Rightarrow> nat" where
  "loop_budget tapped s =
     length (filter (tappable tapped (cards_played_this_turn s)) (battlefield s)) +
     length (filter is_fetcher (battlefield s)) +
     2 * length (hand s) + length (filter is_fetcher (hand s)) +
     length (filter is_fetcher (library s))"

subsection \<open>Facts about the passes that bound the loop\<close>

lemma card_eq_refl: "card_eq c c"
  by (simp add: card_eq_def)

lemma mset_swaps: "i < length xs \<Longrightarrow> mset (swaps r i xs) = mset xs"
proof (induction i arbitrary: xs)
  case 0
  show ?case by simp
next
  case (Suc i)
  let ?j = "r (Suc i) mod (Suc (Suc i))"
  have "?j < Suc (Suc i)" by simp
  with Suc.prems have j: "?j < length xs" by linarith
  have "mset (xs[Suc i := xs ! ?j, ?j := xs ! Suc i]) = mset xs"
    using Suc.prems j by (simp add: mset_swap)
  moreover have "i < length (xs[Suc i := xs ! ?j, ?j := xs ! Suc i])"
    using Suc.prems by simp
  ultimately show ?case using Suc.IH by (simp add: Let_def)
qed

lemma mset_shuffle: "mset (shuffle rnd k xs) = mset xs"
proof (cases xs)
  case Nil
  then show ?thesis by (simp add: shuffle_def)
next
  case (Cons a as)
  then show ?thesis by (simp add: shuffle_def mset_swaps)
qed

lemma length_shuffle: "length (shuffle rnd k xs) = length xs"
  using mset_shuffle [of rnd k xs] by (metis size_mset)

lemma filter_length_shuffle: "length (filter P (shuffle rnd k xs)) = length (filter P xs)"
proof -
  have "mset (filter P (shuffle rnd k xs)) = mset (filter P xs)"
    unfolding mset_filter [symmetric] by (simp add: mset_shuffle)
  then show ?thesis by (metis size_mset)
qed

lemma card_eq_tags: "card_eq x c \<Longrightarrow> tags x = tags c"
  by (simp add: card_eq_def)

lemma card_eq_sym: "card_eq x c \<Longrightarrow> card_eq c x"
  by (simp add: card_eq_def)

lemma card_eq_trans: "card_eq x y \<Longrightarrow> card_eq y z \<Longrightarrow> card_eq x z"
  by (simp add: card_eq_def)

lemma card_in_member: "c \<in> set cs \<Longrightarrow> card_in c cs"
  using card_eq_refl [of c] by (auto simp: card_in_def list_ex_iff)

lemma card_in_append: "card_in b ps \<Longrightarrow> card_in b (ps @ qs)"
  by (auto simp: card_in_def list_ex_iff)

lemma length_list_remove: "card_in c cs \<Longrightarrow> Suc (length (list_remove c cs)) = length cs"
  by (induction cs) (auto simp: card_in_def card_eq_sym)

lemma filter_list_remove_le: "length (filter P (list_remove c cs)) \<le> length (filter P cs)"
  by (induction cs) auto

lemma filter_list_remove_eq:
  assumes "card_in c cs" and "\<And>x. card_eq x c \<Longrightarrow> P x = P c"
  shows "length (filter P (list_remove c cs)) + (if P c then 1 else 0) = length (filter P cs)"
  using assms(1)
proof (induction cs)
  case Nil
  then show ?case by (simp add: card_in_def)
next
  case (Cons x cs)
  show ?case
  proof (cases "card_eq x c")
    case True
    then show ?thesis using assms(2) [of x] by simp
  next
    case False
    with Cons.prems have "card_in c cs" by (auto simp: card_in_def card_eq_sym)
    with Cons.IH False show ?thesis by simp
  qed
qed

lemma fetcher_list_remove:
  "card_in c cs \<Longrightarrow>
   length (filter is_fetcher (list_remove c cs)) + (if is_fetcher c then 1 else 0) =
   length (filter is_fetcher cs)"
  by (rule filter_list_remove_eq) (simp_all add: is_fetcher_def card_eq_tags)

lemma filter_length_mono:
  "(\<And>x. x \<in> set xs \<Longrightarrow> P x \<Longrightarrow> Q x) \<Longrightarrow> length (filter P xs) \<le> length (filter Q xs)"
  by (induction xs) auto

lemma filter_length_strict:
  assumes "\<And>x. x \<in> set xs \<Longrightarrow> P x \<Longrightarrow> Q x" and "b \<in> set xs" and "Q b" and "\<not> P b"
  shows "length (filter P xs) < length (filter Q xs)"
  using assms
proof (induction xs)
  case Nil
  then show ?case by simp
next
  case (Cons x xs)
  show ?case
  proof (cases "b = x")
    case True
    have "length (filter P xs) \<le> length (filter Q xs)"
      using Cons.prems(1) by (intro filter_length_mono) auto
    with True Cons.prems show ?thesis by simp
  next
    case False
    with Cons have "length (filter P xs) < length (filter Q xs)" by auto
    with Cons.prems(1) [of x] show ?thesis by auto
  qed
qed

lemma tappable_mono:
  "tapped \<subseteq> tapped' \<Longrightarrow> tappable tapped' (played @ extra) b \<Longrightarrow> tappable tapped played b"
  by (auto simp: tappable_def card_in_append)

lemma tappable_count_mono:
  "tapped \<subseteq> tapped' \<Longrightarrow>
   length (filter (tappable tapped' (played @ extra)) bf) \<le> length (filter (tappable tapped played) bf)"
  by (rule filter_length_mono) (erule (1) tappable_mono)

lemma tappable_count_strict:
  assumes "tapped \<subseteq> tapped'" and "b \<in> set bf" and "tappable tapped played b"
    and "ident b \<in> tapped'"
  shows "length (filter (tappable tapped' played) bf) < length (filter (tappable tapped played) bf)"
proof (rule filter_length_strict [where b = b])
  show "tappable tapped played x" if "tappable tapped' played x" for x
    using tappable_mono [of tapped tapped' played "[]" x] assms(1) that by simp
  show "\<not> tappable tapped' played b" using assms(4) by (simp add: tappable_def)
qed (use assms in auto)

lemma tap_lands_result:
  "\<exists>p. tap_lands ls (tapped, s) = (tapped \<union> ident ` set ls, s\<lparr>mana_pool := p\<rparr>)"
proof (induction ls arbitrary: tapped s)
  case Nil
  have "tap_lands [] (tapped, s) = (tapped \<union> ident ` set [], s\<lparr>mana_pool := mana_pool s\<rparr>)"
    by simp
  then show ?case by blast
next
  case (Cons l ls)
  from Cons.IH [of "insert (ident l) tapped" "add_mana s [(''colorless'', 1)]"]
  obtain p where "tap_lands ls (insert (ident l) tapped, add_mana s [(''colorless'', 1)]) =
      (insert (ident l) tapped \<union> ident ` set ls, (add_mana s [(''colorless'', 1)])\<lparr>mana_pool := p\<rparr>)"
    by blast
  then have "tap_lands (l # ls) (tapped, s) = (tapped \<union> ident ` set (l # ls), s\<lparr>mana_pool := p\<rparr>)"
    by (simp add: add_mana_def)
  then show ?case by blast
qed

lemma tap_rocks_result:
  "\<exists>p tapped'. tap_rocks rs (tapped, s, added) = (tapped', s\<lparr>mana_pool := p\<rparr>, added \<or> tapped' \<noteq> tapped) \<and>
     tapped \<subseteq> tapped' \<and>
     (\<forall>i \<in> tapped' - tapped. \<exists>b \<in> set rs. ident b = i \<and>
        tappable tapped (cards_played_this_turn s) b)"
proof (induction rs arbitrary: tapped s added)
  case Nil
  have "tap_rocks [] (tapped, s, added) = (tapped, s\<lparr>mana_pool := mana_pool s\<rparr>, added \<or> tapped \<noteq> tapped)"
    by simp
  then show ?case by blast
next
  case (Cons a rs)
  consider (skip) "ident a \<in> tapped \<or> (card_in a (cards_played_this_turn s) \<and>
          (''TAPPED_ENTRY'' \<in> set (tags a) \<or> str_in ''Creature'' (type_line a)))"
    | (tap) "ident a \<notin> tapped" "\<not> (card_in a (cards_played_this_turn s) \<and>
          (''TAPPED_ENTRY'' \<in> set (tags a) \<or> str_in ''Creature'' (type_line a)))"
    by blast
  then show ?case
  proof cases
    case skip
    from Cons.IH [of tapped s added] obtain p t' where
      r: "tap_rocks rs (tapped, s, added) = (t', s\<lparr>mana_pool := p\<rparr>, added \<or> t' \<noteq> tapped)"
      and sub: "tapped \<subseteq> t'"
      and new: "\<forall>i \<in> t' - tapped. \<exists>b \<in> set rs. ident b = i \<and>
        tappable tapped (cards_played_this_turn s) b"
      by blast
    from skip r have "tap_rocks (a # rs) (tapped, s, added) =
        (t', s\<lparr>mana_pool := p\<rparr>, added \<or> t' \<noteq> tapped)"
      by auto
    with sub new show ?thesis by auto
  next
    case tap
    let ?s1 = "add_mana s [(''colorless'', 1)]"
    let ?t1 = "insert (ident a) tapped"
    have cp: "cards_played_this_turn ?s1 = cards_played_this_turn s"
      by (simp add: add_mana_def)
    from Cons.IH [of ?t1 ?s1 True] obtain p t' where
      r: "tap_rocks rs (?t1, ?s1, True) = (t', ?s1\<lparr>mana_pool := p\<rparr>, True \<or> t' \<noteq> ?t1)"
      and sub: "?t1 \<subseteq> t'"
      and new: "\<forall>i \<in> t' - ?t1. \<exists>b \<in> set rs. ident b = i \<and>
        tappable ?t1 (cards_played_this_turn ?s1) b"
      by blast
    have ne: "t' \<noteq> tapped" using sub tap(1) by auto
    from tap r have "tap_rocks (a # rs) (tapped, s, added) =
        (t', s\<lparr>mana_pool := p\<rparr>, added \<or> t' \<noteq> tapped)"
      using ne by (auto simp: add_mana_def)
    moreover have "tapped \<subseteq> t'" using sub by auto
    moreover have "\<forall>i \<in> t' - tapped. \<exists>b \<in> set (a # rs). ident b = i \<and>
        tappable tapped (cards_played_this_turn s) b"
    proof
      fix i assume i: "i \<in> t' - tapped"
      show "\<exists>b \<in> set (a # rs). ident b = i \<and> tappable tapped (cards_played_this_turn s) b"
      proof (cases "i = ident a")
        case True
        with tap show ?thesis by (auto simp: tappable_def)
      next
        case False
        with i have "i \<in> t' - ?t1" by auto
        with new obtain b where "b \<in> set rs" "ident b = i"
          "tappable ?t1 (cards_played_this_turn ?s1) b" by blast
        then show ?thesis by (auto simp: tappable_def cp)
      qed
    qed
    ultimately show ?thesis by blast
  qed
qed

lemma land_untapped_tappable:
  "land_untapped s tapped b \<Longrightarrow> tappable tapped (cards_played_this_turn s) b"
  by (auto simp: land_untapped_def tappable_def split: if_splits)

lemma mana_sweep_result:
  "\<exists>p tapped'. mana_sweep (tapped, s) = (tapped', s\<lparr>mana_pool := p\<rparr>, tapped' \<noteq> tapped) \<and>
     tapped \<subseteq> tapped' \<and>
     (\<forall>i \<in> tapped' - tapped. \<exists>b \<in> set (battlefield s). ident b = i \<and>
        tappable tapped (cards_played_this_turn s) b)"
proof -
  let ?ls = "untapped_lands s tapped"
  let ?t1 = "tapped \<union> ident ` set ?ls"
  obtain p1 where l: "tap_lands ?ls (tapped, s) = (?t1, s\<lparr>mana_pool := p1\<rparr>)"
    using tap_lands_result by blast
  let ?s1 = "s\<lparr>mana_pool := p1\<rparr>"
  from tap_rocks_result [of "mana_rocks ?s1" ?t1 ?s1 "?ls \<noteq> []"]
  obtain p t' where r: "tap_rocks (mana_rocks ?s1) (?t1, ?s1, ?ls \<noteq> []) =
        (t', ?s1\<lparr>mana_pool := p\<rparr>, ?ls \<noteq> [] \<or> t' \<noteq> ?t1)"
    and sub: "?t1 \<subseteq> t'"
    and new: "\<forall>i \<in> t' - ?t1. \<exists>b \<in> set (mana_rocks ?s1). ident b = i \<and>
        tappable ?t1 (cards_played_this_turn ?s1) b"
    by blast
  have lands: "\<And>b. b \<in> set ?ls \<Longrightarrow> b \<in> set (battlefield s) \<and> ident b \<notin> tapped \<and>
      tappable tapped (cards_played_this_turn s) b"
    by (auto simp: untapped_lands_def land_untapped_tappable)
      (auto simp: land_untapped_def split: if_splits)
  have flag: "(?ls \<noteq> [] \<or> t' \<noteq> ?t1) = (t' \<noteq> tapped)"
  proof (cases "?ls")
    case Nil
    then show ?thesis by simp
  next
    case (Cons b bs)
    then have "b \<in> set ?ls" by simp
    with lands [of b] sub have "ident b \<in> t'" "ident b \<notin> tapped" by auto
    with Cons show ?thesis by auto
  qed
  have "mana_sweep (tapped, s) = (t', s\<lparr>mana_pool := p\<rparr>, t' \<noteq> tapped)"
    using l r flag by (simp add: mana_sweep_def Let_def)
  moreover have "tapped \<subseteq> t'" using sub by auto
  moreover have "\<forall>i \<in> t' - tapped. \<exists>b \<in> set (battlefield s). ident b = i \<and>
        tappable tapped (cards_played_this_turn s) b"
  proof
    fix i assume i: "i \<in> t' - tapped"
    show "\<exists>b \<in> set (battlefield s). ident b = i \<and> tappable tapped (cards_played_this_turn s) b"
    proof (cases "i \<in> ?t1")
      case True
      with i obtain b where "b \<in> set ?ls" "ident b = i" by auto
      with lands [of b] show ?thesis by auto
    next
      case False
      with i new obtain b where b: "b \<in> set (mana_rocks ?s1)" "ident b = i"
        "tappable ?t1 (cards_played_this_turn ?s1) b" by blast
      then have "b \<in> set (battlefield s)" by (simp add: mana_rocks_def)
      moreover from b(3) have "tappable tapped (cards_played_this_turn s) b"
        by (auto simp: tappable_def)
      ultimately show ?thesis using b(2) by blast
    qed
  qed
  ultimately show ?thesis by blast
qed

lemma loop_budget_pool [simp]: "loop_budget tapped (s\<lparr>mana_pool := p\<rparr>) = loop_budget tapped s"
  by (simp add: loop_budget_def)

lemma mana_sweep_budget:
  assumes "mana_sweep (tapped, s) = (tapped', s', added)"
  shows "loop_budget tapped' s' \<le> loop_budget tapped s"
    and "added \<Longrightarrow> loop_budget tapped' s' < loop_budget tapped s"
    and "\<exists>p. s' = s\<lparr>mana_pool := p\<rparr>" and "tapped \<subseteq> tapped'" and "added \<longleftrightarrow> tapped' \<noteq> tapped"
proof -
  from mana_sweep_result [of tapped s] assms obtain p where
    s': "s' = s\<lparr>mana_pool := p\<rparr>" and a: "added = (tapped' \<noteq> tapped)" and sub: "tapped \<subseteq> tapped'"
    and new: "\<forall>i \<in> tapped' - tapped. \<exists>b \<in> set (battlefield s). ident b = i \<and>
        tappable tapped (cards_played_this_turn s) b"
    by auto
  show "\<exists>p. s' = s\<lparr>mana_pool := p\<rparr>" using s' by blast
  show "tapped \<subseteq> tapped'" by (rule sub)
  show "added \<longleftrightarrow> tapped' \<noteq> tapped" by (rule a)
  have le: "length (filter (tappable tapped' (cards_played_this_turn s)) (battlefield s))
      \<le> length (filter (tappable tapped (cards_played_this_turn s)) (battlefield s))"
    using tappable_count_mono [OF sub, of "cards_played_this_turn s" "[]" "battlefield s"] by simp
  then show "loop_budget tapped' s' \<le> loop_budget tapped s"
    by (simp add: s' loop_budget_def)
  show "loop_budget tapped' s' < loop_budget tapped s" if added
  proof -
    from that a sub obtain i where i: "i \<in> tapped' - tapped" by auto
    with new obtain b where b: "b \<in> set (battlefield s)" "ident b = i"
      "tappable tapped (cards_played_this_turn s) b" by blast
    from b(2) i have "ident b \<in> tapped'" by simp
    from tappable_count_strict [OF sub b(1) b(3) this]
    show ?thesis by (simp add: s' loop_budget_def)
  qed
qed

lemma affordable_props:
  "c \<in> set (affordable s) \<longleftrightarrow> c \<in> set (hand s) \<and> \<not> is_land c \<and> can_afford s (mana_cost c)"
  by (auto simp: affordable_def)

lemma choose_spell_None: "choose_spell s = None \<longleftrightarrow> affordable s = []"
  by (simp add: choose_spell_def)

lemma choose_spell_affordable: "choose_spell s = Some c \<Longrightarrow> c \<in> set (affordable s)"
proof -
  assume a: "choose_spell s = Some c"
  then have ne: "affordable s \<noteq> []" and c: "c = hd (sort_key (\<lambda>c. - cmc c) (affordable s))"
    by (auto simp: choose_spell_def split: if_splits)
  from ne have "sort_key (\<lambda>c. - cmc c) (affordable s) \<noteq> []"
    by (metis length_0_conv length_sort)
  then have "c \<in> set (sort_key (\<lambda>c. - cmc c) (affordable s))" unfolding c by (rule hd_in_set)
  then show ?thesis by simp
qed

lemma cast_phase_cases:
  obtains (none) "choose_spell s = None" "cast_phase s = Inr (False, s)"
  | (perm) c where "choose_spell s = Some c" "c \<in> set (hand s)" "is_permanent c"
      "cast_phase s = Inr (True, s\<lparr> hand := list_remove c (hand s),
          battlefield := battlefield s @ [c], mana_pool := pay_cost (mana_pool s) (mana_cost c),
          cards_played_this_turn := cards_played_this_turn s @ [c] \<rparr>)"
  | (spell) c where "choose_spell s = Some c" "c \<in> set (hand s)" "\<not> is_permanent c"
      "cast_phase s = Inr (True, s\<lparr> hand := list_remove c (hand s),
          graveyard := graveyard s @ [c], mana_pool := pay_cost (mana_pool s) (mana_cost c) \<rparr>)"
proof (cases "choose_spell s")
  case None
  then show ?thesis using none by (simp add: cast_phase_def)
next
  case (Some c)
  then have "c \<in> set (hand s)" and af: "can_afford s (mana_cost c)"
    using choose_spell_affordable [of s c] by (simp_all add: affordable_props)
  then have inh: "card_in c (hand s)" by (simp add: card_in_member)
  show ?thesis
  proof (cases "is_permanent c")
    case True
    with Some inh af \<open>c \<in> set (hand s)\<close> show ?thesis
      by (intro perm [of c]) (simp_all add: cast_phase_def cast_spell_def Let_def)
  next
    case False
    with Some inh af \<open>c \<in> set (hand s)\<close> show ?thesis
      by (intro spell [of c]) (simp_all add: cast_phase_def cast_spell_def Let_def)
  qed
qed

lemma cast_phase_no_error: "cast_phase s \<noteq> Inl e"
  by (rule cast_phase_cases [of s]) simp_all

lemma cast_phase_False: "cast_phase s = Inr (False, s') \<Longrightarrow> s' = s"
  by (rule cast_phase_cases [of s]) simp_all

lemma hand_weight_remove:
  assumes "c \<in> set hnd"
  shows "2 * length (list_remove c hnd) + length (filter is_fetcher (list_remove c hnd)) + 2 +
         (if is_fetcher c then 1 else 0) =
         2 * length hnd + length (filter is_fetcher hnd)"
proof -
  from assms have inh: "card_in c hnd" by (rule card_in_member)
  from length_list_remove [OF inh] fetcher_list_remove [OF inh] show ?thesis by simp
qed

lemma cast_phase_budget:
  assumes "cast_phase s = Inr (True, s')"
  shows "loop_budget tapped s' < loop_budget tapped s"
proof (rule cast_phase_cases [of s])
  assume "cast_phase s = Inr (False, s)"
  with assms show ?thesis by simp
next
  fix c
  assume c: "c \<in> set (hand s)" and
    r: "cast_phase s = Inr (True, s\<lparr> hand := list_remove c (hand s),
          battlefield := battlefield s @ [c], mana_pool := pay_cost (mana_pool s) (mana_cost c),
          cards_played_this_turn := cards_played_this_turn s @ [c] \<rparr>)"
  have e: "length (filter (tappable tapped (cards_played_this_turn s @ [c])) (battlefield s))
      \<le> length (filter (tappable tapped (cards_played_this_turn s)) (battlefield s))"
    by (rule tappable_count_mono) simp
  from r assms hand_weight_remove [OF c] e show ?thesis
    by (auto simp: loop_budget_def)
next
  fix c
  assume c: "c \<in> set (hand s)" and
    r: "cast_phase s = Inr (True, s\<lparr> hand := list_remove c (hand s),
          graveyard := graveyard s @ [c], mana_pool := pay_cost (mana_pool s) (mana_cost c) \<rparr>)"
  from r assms hand_weight_remove [OF c] show ?thesis
    by (auto simp: loop_budget_def)
qed

lemma force_tapped_props:
  "is_fetcher (force_tapped t) = is_fetcher t" "''TAPPED_ENTRY'' \<in> set (tags (force_tapped t))"
  by (auto simp: force_tapped_def is_fetcher_def)

lemma not_tappable_just_played:
  "''TAPPED_ENTRY'' \<in> set (tags b) \<Longrightarrow> \<not> tappable tapped (played @ [b]) b"
  using card_eq_refl [of b] by (auto simp: tappable_def card_in_def list_ex_iff)

lemma resolve_fetch_cases:
  obtains (nothing) "resolve_fetch_lands rnd k tapped s = (False, k, s)"
      "find (\<lambda>f. \<not> fetch_skipped s tapped f) (filter is_fetcher (battlefield s)) = None"
  | (no_target) f where
      "find (\<lambda>f. \<not> fetch_skipped s tapped f) (filter is_fetcher (battlefield s)) = Some f"
      "find fetch_target (library s) = None"
      "resolve_fetch_lands rnd k tapped s =
         (True, k, s\<lparr> battlefield := list_remove f (battlefield s),
                      graveyard := graveyard s @ [f] \<rparr>)"
  | (fetched) f t where
      "find (\<lambda>f. \<not> fetch_skipped s tapped f) (filter is_fetcher (battlefield s)) = Some f"
      "find fetch_target (library s) = Some t"
      "resolve_fetch_lands rnd k tapped s =
         (True, Suc k,
          s\<lparr> library := shuffle rnd k (list_remove t (library s)),
             battlefield := list_remove f (battlefield s) @ [force_tapped t],
             graveyard := graveyard s @ [f],
             cards_played_this_turn := cards_played_this_turn s @ [force_tapped t] \<rparr>)"
proof (cases "find (\<lambda>f. \<not> fetch_skipped s tapped f) (filter is_fetcher (battlefield s))")
  case None
  then have r: "resolve_fetch_lands rnd k tapped s = (False, k, s)"
    by (simp add: resolve_fetch_lands_def is_fetcher_def [abs_def])
  show ?thesis using r None by (rule nothing)
next
  case (Some f)
  show ?thesis
  proof (cases "find fetch_target (library s)")
    case None
    with Some show ?thesis
      by (intro no_target [of f]) (simp_all add: resolve_fetch_lands_def is_fetcher_def [abs_def])
  next
    case (Some t)
    with \<open>find _ _ = Some f\<close> show ?thesis
      by (intro fetched [of f t])
        (simp_all add: resolve_fetch_lands_def is_fetcher_def [abs_def] Let_def)
  qed
qed

lemma resolve_fetch_False:
  "resolve_fetch_lands rnd k tapped s = (False, k', s') \<Longrightarrow> k' = k \<and> s' = s"
  by (rule resolve_fetch_cases [of rnd k tapped s]) simp_all

lemma find_fetcher:
  assumes "find P (filter is_fetcher bf) = Some f"
  shows "f \<in> set bf" "is_fetcher f" "P f"
  using assms by (auto simp: find_Some_iff dest: nth_mem)

lemma resolve_fetch_budget:
  assumes "resolve_fetch_lands rnd k tapped s = (True, k', s')"
  shows "loop_budget tapped s' < loop_budget tapped s"
proof (rule resolve_fetch_cases [of rnd k tapped s])
  assume "resolve_fetch_lands rnd k tapped s = (False, k, s)"
  with assms show ?thesis by simp
next
  fix f
  assume f: "find (\<lambda>f. \<not> fetch_skipped s tapped f) (filter is_fetcher (battlefield s)) = Some f"
    and r: "resolve_fetch_lands rnd k tapped s =
         (True, k, s\<lparr> battlefield := list_remove f (battlefield s),
                      graveyard := graveyard s @ [f] \<rparr>)"
  from find_fetcher [OF f] have inb: "card_in f (battlefield s)" and ff: "is_fetcher f"
    by (simp_all add: card_in_member)
  have e: "length (filter (tappable tapped (cards_played_this_turn s)) (list_remove f (battlefield s)))
      \<le> length (filter (tappable tapped (cards_played_this_turn s)) (battlefield s))"
    by (rule filter_list_remove_le)
  from r assms e fetcher_list_remove [OF inb] ff show ?thesis
    by (auto simp: loop_budget_def)
next
  fix f t
  assume f: "find (\<lambda>f. \<not> fetch_skipped s tapped f) (filter is_fetcher (battlefield s)) = Some f"
    and t: "find fetch_target (library s) = Some t"
    and r: "resolve_fetch_lands rnd k tapped s =
         (True, Suc k,
          s\<lparr> library := shuffle rnd k (list_remove t (library s)),
             battlefield := list_remove f (battlefield s) @ [force_tapped t],
             graveyard := graveyard s @ [f],
             cards_played_this_turn := cards_played_this_turn s @ [force_tapped t] \<rparr>)"
  let ?cp = "cards_played_this_turn s"
  from find_fetcher [OF f] have inb: "card_in f (battlefield s)" and ff: "is_fetcher f"
    by (simp_all add: card_in_member)
  from t have "t \<in> set (library s)" by (auto simp: find_Some_iff dest: nth_mem)
  then have inl: "card_in t (library s)" by (rule card_in_member)
  have "length (filter (tappable tapped (?cp @ [force_tapped t])) (list_remove f (battlefield s)))
      \<le> length (filter (tappable tapped ?cp) (list_remove f (battlefield s)))"
    by (rule tappable_count_mono) simp
  also have "\<dots> \<le> length (filter (tappable tapped ?cp) (battlefield s))"
    by (rule filter_list_remove_le)
  finally have e: "length (filter (tappable tapped (?cp @ [force_tapped t]))
        (list_remove f (battlefield s))) \<le> length (filter (tappable tapped ?cp) (battlefield s))" .
  have nt: "\<not> tappable tapped (?cp @ [force_tapped t]) (force_tapped t)"
    by (rule not_tappable_just_played) (rule force_tapped_props)
  from r assms e nt fetcher_list_remove [OF inb] fetcher_list_remove [OF inl] ff show ?thesis
    by (auto simp: loop_budget_def filter_length_shuffle force_tapped_props)
qed

lemma loop_pass_no_error: "loop_pass rnd x \<noteq> Inl e"
proof -
  obtain k tapped s where x: "x = (k, tapped, s)" by (cases x)
  obtain t' s' a where m: "mana_sweep (tapped, s) = (t', s', a)" by (cases "mana_sweep (tapped, s)")
  obtain c s'' where c: "cast_phase s' = Inr (c, s'')"
    using cast_phase_no_error [of s'] by (cases "cast_phase s'") auto
  show ?thesis by (simp add: loop_pass_def x m c split: prod.splits)
qed

lemma loop_pass_budget:
  assumes "loop_pass rnd (k, tapped, s) = Inr (True, k', tapped', s')"
  shows "loop_budget tapped' s' < loop_budget tapped s"
proof -
  obtain t1 s1 a where m: "mana_sweep (tapped, s) = (t1, s1, a)"
    by (cases "mana_sweep (tapped, s)")
  obtain c s2 where c: "cast_phase s1 = Inr (c, s2)"
    using cast_phase_no_error [of s1] by (cases "cast_phase s1") auto
  note sweep = mana_sweep_budget [OF m]
  show ?thesis
  proof (cases "\<not> a \<and> \<not> c")
    case True
    with c have s2: "s2 = s1" by (simp add: cast_phase_False)
    from True assms m c obtain f where
      "resolve_fetch_lands rnd k t1 s2 = (True, k', s')" and "tapped' = t1"
      by (auto simp: loop_pass_def split: prod.splits)
    then have "loop_budget tapped' s' < loop_budget t1 s1"
      using resolve_fetch_budget s2 by blast
    with sweep(1) show ?thesis by simp
  next
    case False
    with assms m c have eq: "tapped' = t1" "s' = s2" by (auto simp: loop_pass_def)
    show ?thesis
    proof (cases c)
      case True
      with c have "loop_budget t1 s2 < loop_budget t1 s1" by (simp add: cast_phase_budget)
      with sweep(1) eq show ?thesis by simp
    next
      case nc: False
      with False have a by simp
      from nc c have "s2 = s1" by (simp add: cast_phase_False)
      with sweep(2) [OF \<open>a\<close>] eq show ?thesis by simp
    qed
  qed
qed

subsection \<open>The main-phase loop, the turn and the game\<close>

text \<open>The \<open>while True\<close> loop of \<open>_main_phase_heuristic\<close>: passes are repeated until one
  neither adds mana nor casts nor fetches.  \<open>loop_passes\<close> counts the passes the loop makes.\<close>

function main_loop :: "rng \<Rightarrow> nat \<times> nat set \<times> game_state \<Rightarrow> error + (nat \<times> game_state)" where
  "main_loop rnd x =
     (case loop_pass rnd x of
        Inl e \<Rightarrow> Inl e
      | Inr (again, x') \<Rightarrow> if again then main_loop rnd x' else Inr (fst x', snd (snd x')))"
  by pat_completeness auto
termination
proof (relation "measure (\<lambda>(rnd, k, tapped, s). loop_budget tapped s)")
  show "wf (measure (\<lambda>(rnd, k, tapped, s). loop_budget tapped s))" by simp
next
  fix rnd :: rng and x :: "nat \<times> nat set \<times> game_state" and y again x'
  assume "loop_pass rnd x = Inr y" and "(again, x') = y" and again
  then have "loop_pass rnd x = Inr (True, x')" by auto
  then show "((rnd, x'), (rnd, x)) \<in> measure (\<lambda>(rnd, k, tapped, s). loop_budget tapped s)"
    using loop_pass_budget [of rnd "fst x" "fst (snd x)" "snd (snd x)"
        "fst x'" "fst (snd x')" "snd (snd x')"]
    by (simp add: case_prod_beta)
qed

function loop_passes :: "rng \<Rightarrow> nat \<times> nat set \<times> game_state \<Rightarrow> nat" where
  "loop_passes rnd x =
     (case loop_pass rnd x of
        Inl e \<Rightarrow> 1
      | Inr (again, x') \<Rightarrow> if again then Suc (loop_passes rnd x') else 1)"
  by pat_completeness auto
termination
proof (relation "measure (\<lambda>(rnd, k, tapped, s). loop_budget tapped s)")
  show "wf (measure (\<lambda>(rnd, k, tapped, s). loop_budget tapped s))" by simp
next
  fix rnd :: rng and x :: "nat \<times> nat set \<times> game_state" and y again x'
  assume "loop_pass rnd x = Inr y" and "(again, x') = y" and again
  then have "loop_pass rnd x = Inr (True, x')" by auto
  then show "((rnd, x'), (rnd, x)) \<in> measure (\<lambda>(rnd, k, tapped, s). loop_budget tapped s)"
    using loop_pass_budget [of rnd "fst x" "fst (snd x)" "snd (snd x)"
        "fst x'" "fst (snd x')" "snd (snd x')"]
    by (simp add: case_prod_beta)
qed

text \<open>Step 1 of the main phase: play the first land of the hand if none was played.\<close>

definition land_drop :: "game_state \<Rightarrow> game_state" where
  "land_drop s =
     (let lands_in_hand = filter is_land (hand s) in
      if lands_in_hand \<noteq> [] \<and> land_played_this_turn s = None
      then snd (play_land s (hd lands_in_hand))
      else s)"

definition main_phase_heuristic :: "rng \<Rightarrow> nat \<times> game_state \<Rightarrow> error + (nat \<times> game_state)" where
  "main_phase_heuristic rnd ks = main_loop rnd (fst ks, {}, land_drop (snd ks))"

definition step :: "rng \<Rightarrow> nat \<times> game_state \<Rightarrow> error + (nat \<times> game_state)" where
  "step rnd ks =
     (let s1 = snd (draw_card (snd ks)) in
      case main_phase_heuristic rnd (fst ks, s1) of
        Inl e \<Rightarrow> Inl e
      | Inr (k', s2) \<Rightarrow>
          let s3 = (clear_mana_pool s2)\<lparr> land_played_this_turn := None \<rparr>
          in Inr (k', s3\<lparr> turn_counter := turn_counter s3 + 1 \<rparr>))"

fun run_turns :: "rng \<Rightarrow> nat \<Rightarrow> nat \<times> game_state \<Rightarrow> error + (nat \<times> game_state)" where
  "run_turns rnd 0 ks = Inr ks"
| "run_turns rnd (Suc n) ks =
     (case step rnd ks of Inl e \<Rightarrow> Inl e | Inr ks' \<Rightarrow> run_turns rnd n ks')"

text \<open>\<open>for _ in range(n): draw_card()\<close>\<close>

fun draw_cards :: "nat \<Rightarrow> game_state \<Rightarrow> game_state" where
  "draw_cards 0 s = s"
| "draw_cards (Suc n) s = draw_cards n (snd (draw_card s))"

text \<open>The commander that \<open>start_game\<close> sets aside (given, or the first legendary creature of
  the deck) and the library it builds: the deck without every card equal to the commander.\<close>

definition find_commander :: "card list \<Rightarrow> card option \<Rightarrow> card option" where
  "find_commander deck cmd =
     (case cmd of
        Some c \<Rightarrow> Some c
      | None \<Rightarrow> find (\<lambda>c. str_in ''Legendary'' (type_line c) \<and> str_in ''Creature'' (type_line c))
                 deck)"

definition deck_library :: "card list \<Rightarrow> card option \<Rightarrow> card list" where
  "deck_library deck cmd =
     filter (\<lambda>c. case find_commander deck cmd of None \<Rightarrow> True | Some m \<Rightarrow> \<not> card_eq c m)
       deck"

definition start_game ::
  "rng \<Rightarrow> nat \<times> game_state \<Rightarrow> card list \<Rightarrow> card option \<Rightarrow> nat \<times> game_state" where
  "start_game rnd ks deck cmd =
     (let k = fst ks;
          s1 = (snd ks)\<lparr> commander := find_commander deck cmd,
                          library := shuffle rnd (Suc k) (shuffle rnd k (deck_library deck cmd)) \<rparr>;
          s2 = draw_cards 7 s1
      in (Suc (Suc k), s2\<lparr> turn_counter := 1 \<rparr>))"

text \<open>A game: a fresh engine, \<open>start_game\<close>, then \<open>run_turns\<close>.\<close>

definition play_game :: "rng \<Rightarrow> card list \<Rightarrow> card option \<Rightarrow> nat \<Rightarrow> error + (nat \<times> game_state)" where
  "play_game rnd deck cmd n = run_turns rnd n (start_game rnd (0, init_state) deck cmd)"

text \<open>The cards of the four zones, and what identifies a card apart from its object
  identity and its mutable tags.\<close>

definition zones :: "game_state \<Rightarrow> card list" where
  "zones s = library s @ hand s @ battlefield s @ graveyard s"

definition card_face ::
  "card \<Rightarrow> string \<times> (string \<times> int) set \<times> int \<times> string \<times> string \<times> string \<times> string list" where
  "card_face c =
     (name c, set (mana_cost c), cmc c, type_line c, oracle_text c, scryfall_id c, color_identity c)"

definition zone_faces ::
  "game_state \<Rightarrow> (string \<times> (string \<times> int) set \<times> int \<times> string \<times> string \<times> string \<times> string list) multiset" where
  "zone_faces s = mset (map card_face (zones s))"

text \<open>The state from which pass number \<open>n\<close> (counting from 0) of the loop starts.\<close>

fun pass_start :: "rng \<Rightarrow> nat \<Rightarrow> nat \<times> nat set \<times> game_state \<Rightarrow> nat \<times> nat set \<times> game_state" where
  "pass_start rnd 0 x = x"
| "pass_start rnd (Suc n) x =
     (case loop_pass rnd x of Inl e \<Rightarrow> x | Inr (again, x') \<Rightarrow> pass_start rnd n x')"

subsection \<open>Example cards and states\<close>

definition mk_card ::
  "nat \<Rightarrow> string \<Rightarrow> (string \<times> int) list \<Rightarrow> int \<Rightarrow> string \<Rightarrow> string \<Rightarrow> string list \<Rightarrow> card" where
  "mk_card i n cost v ty txt tg =
     \<lparr> ident = i, name = n, mana_cost = cost, cmc = v, type_line = ty, oracle_text = txt,
       tags = tg, scryfall_id = ''test-'' @ n, color_identity = [] \<rparr>"

definition ex_forest :: card where
  "ex_forest = mk_card 1 ''Forest'' [] 0 ''Basic Land - Forest'' ''{T}: Add {G}.'' [''LAND'']"

definition ex_island :: card where
  "ex_island = mk_card 2 ''Island'' [] 0 ''Basic Land - Island'' ''{T}: Add {U}.'' [''LAND'']"

definition ex_untagged_land :: card where
  "ex_untagged_land = mk_card 3 ''Wastes'' [] 0 ''Land'' [] []"

definition ex_bolt :: card where
  "ex_bolt = mk_card 4 ''Lightning Bolt'' [(''R'', 1)] 1 ''Instant'' [] [''INSTANT'']"

definition ex_bear :: card where
  "ex_bear = mk_card 5 ''Bear'' [(''colorless'', 2)] 2 ''Creature'' [] [''CREATURE'']"

definition ex_swamp :: card where
  "ex_swamp = mk_card 6 ''Swamp'' [] 0 ''Basic Land - Swamp'' ''{T}: Add {B}.'' [''LAND'']"

definition ex_state :: game_state where
  "ex_state = init_state\<lparr> library := [ex_forest, ex_island],
     hand := [ex_untagged_land, ex_bolt, ex_swamp], mana_pool := [(''colorless'', 3)], turn_counter := 1 \<rparr>"

definition ex_fastland_text :: string where
  "ex_fastland_text = ''This land enters tapped unless you control two or fewer other lands.''"

definition ex_fast_pay_text :: string where
  "ex_fast_pay_text =
     ''This land enters tapped unless you control two or fewer other lands or unless you pay 2 life.''"

definition ex_two_basics_text :: string where
  "ex_two_basics_text = ''This land enters tapped unless you control two or more basic lands.''"

definition ex_count_text :: string where
  "ex_count_text = ''This land enters tapped unless you control three or more other Mountains.''"

definition ex_plain_tapped_text :: string where
  "ex_plain_tapped_text = ''This land enters tapped.''"

definition rnd_zero :: rng where
  "rnd_zero = (\<lambda>k i. 0)"

definition ex_wilds_text :: string where
  "ex_wilds_text =
     ''{T}, Sacrifice Evolving Wilds: Search your library for a basic land card, put it onto the battlefield tapped, then shuffle.''"

definition ex_wilds :: card where
  "ex_wilds = mk_card 10 ''Evolving Wilds'' [] 0 ''Land'' ex_wilds_text [''LAND'', ''FETCH_LAND'']"

definition ex_classified_wilds :: card where
  "ex_classified_wilds =
     mk_card 12 ''Evolving Wilds'' [] 0 ''Land'' ex_wilds_text
       (assign_tags ''Evolving Wilds'' ''Land'' ex_wilds_text)"

definition ex_crypt :: card where
  "ex_crypt = mk_card 11 ''Mana Crypt'' [(''colorless'', 0)] 0 ''Artifact'' ''{T}: Add {C}{C}.''
     [''RAMP'', ''ARTIFACT'', ''MANA_ROCK'']"

definition ex_fetch_none :: game_state where
  "ex_fetch_none =
     init_state\<lparr> library := [ex_bolt, ex_bear], battlefield := [ex_wilds], turn_counter := 1 \<rparr>"

definition ex_fetch_some :: game_state where
  "ex_fetch_some =
     init_state\<lparr> library := [ex_bolt, ex_forest, ex_island], battlefield := [ex_wilds],
       turn_counter := 1 \<rparr>"

definition ex_classified_state :: game_state where
  "ex_classified_state =
     init_state\<lparr> library := [ex_forest, ex_island], battlefield := [ex_classified_wilds],
       turn_counter := 1 \<rparr>"

definition ex_crypt_state :: game_state where
  "ex_crypt_state = init_state\<lparr> hand := [ex_crypt], turn_counter := 1 \<rparr>"

definition ex_bear_twin :: card where
  "ex_bear_twin = mk_card 13 ''Bear Cub'' [(''colorless'', 2)] 2 ''Creature'' [] [''CREATURE'']"

definition ex_dragon :: card where
  "ex_dragon = mk_card 14 ''Dragon'' [(''colorless'', 6)] 6 ''Creature'' [] [''CREATURE'']"

definition ex_cast_state :: game_state where
  "ex_cast_state =
     init_state\<lparr> hand := [ex_forest, ex_bolt, ex_bear, ex_bear_twin, ex_dragon],
       mana_pool := [(''colorless'', 3)], turn_counter := 1 \<rparr>"

definition ex_deck :: "card list" where
  "ex_deck = [ex_forest, ex_crypt, ex_bolt, ex_bear, ex_island, ex_wilds, ex_swamp, ex_dragon,
     ex_bear_twin]"

text \<open>A random source under which \<open>shuffle\<close> keeps the order of its argument.\<close>

definition rnd_keep :: rng where
  "rnd_keep = (\<lambda>k i. i)"

definition ex_grove :: card where
  "ex_grove = mk_card 21 ''Relic Grove'' [] 0 ''Basic Land - Forest''
     ''{T}, Sacrifice Relic Grove: Search your library for a basic land card, put it onto the battlefield tapped, then shuffle.''
     [''LAND'', ''FETCH_LAND'', ''TAPPED_ENTRY'', ''MANA_ROCK'', ''ARTIFACT'']"

definition ex_grove_copy :: card where
  "ex_grove_copy = ex_grove\<lparr> ident := 22 \<rparr>"

definition ex_hideout :: card where
  "ex_hideout = mk_card 23 ''Brokers Hideout'' [] 0 ''Land''
     ''When Brokers Hideout enters the battlefield, sacrifice it. When you do, search your library for a basic land card, put it onto the battlefield tapped, then shuffle.''
     [''LAND'', ''FETCH_LAND'']"

definition ex_twin_deck :: "card list" where
  "ex_twin_deck =
     [ex_grove, ex_dragon\<lparr> ident := 31 \<rparr>, ex_dragon\<lparr> ident := 32 \<rparr>, ex_dragon\<lparr> ident := 33 \<rparr>,
      ex_dragon\<lparr> ident := 34 \<rparr>, ex_dragon\<lparr> ident := 35 \<rparr>, ex_dragon\<lparr> ident := 36 \<rparr>,
      ex_hideout, ex_dragon\<lparr> ident := 37 \<rparr>, ex_grove_copy]"

section \<open>Properties of the zone operations\<close>

lemma dict_total_set: "dict_total (dict_set d k v) = dict_total d - dict_get d k + v"
  by (induction d) (auto simp: dict_total_def)

lemma dict_total_pay: "dict_total (pay_cost pool cost) = dict_total pool - dict_total cost"
proof (induction cost arbitrary: pool)
  case Nil
  show ?case by (simp add: dict_total_def)
next
  case (Cons a cost)
  obtain k v where a: "a = (k, v)" by (cases a)
  have "dict_total (a # cost) = v + dict_total cost"
    by (simp add: a dict_total_def)
  with Cons show ?case by (simp add: a dict_total_set)
qed

lemma dict_get_nonneg: "pool_nonneg d \<Longrightarrow> 0 \<le> dict_get d k"
  by (induction d) (auto simp: pool_nonneg_def)

lemma pool_nonneg_set: "pool_nonneg d \<Longrightarrow> 0 \<le> v \<Longrightarrow> pool_nonneg (dict_set d k v)"
  by (induction d) (auto simp: pool_nonneg_def)

lemma pool_nonneg_add:
  "pool_nonneg pool \<Longrightarrow> pool_nonneg mana \<Longrightarrow> pool_nonneg (add_to_pool pool mana)"
proof (induction mana arbitrary: pool)
  case Nil
  then show ?case by simp
next
  case (Cons a mana)
  obtain k v where a: "a = (k, v)" by (cases a)
  from Cons.prems have v: "0 \<le> v" and rest: "pool_nonneg mana"
    by (simp_all add: a pool_nonneg_def)
  have "pool_nonneg (dict_set pool k (dict_get pool k + v))"
    using Cons.prems(1) v by (simp add: pool_nonneg_set dict_get_nonneg)
  with Cons.IH rest show ?case by (simp add: a)
qed

lemma pool_nonneg_total: "pool_nonneg d \<Longrightarrow> 0 \<le> dict_total d"
  by (induction d) (auto simp: pool_nonneg_def dict_total_def)

lemma dict_total_add:
  "dict_total (add_to_pool pool mana) = dict_total pool + dict_total mana"
proof (induction mana arbitrary: pool)
  case Nil
  show ?case by (simp add: dict_total_def)
next
  case (Cons a mana)
  obtain k v where a: "a = (k, v)" by (cases a)
  have "dict_total (a # mana) = v + dict_total mana"
    by (simp add: a dict_total_def)
  with Cons show ?case by (simp add: a dict_total_set)
qed

lemma apply_op_total_nonneg:
  assumes "0 \<le> dict_total (mana_pool s)" and "adds_nonneg op" and "apply_op s op = Inr s'"
  shows "0 \<le> dict_total (mana_pool s')"
proof (cases op)
  case DrawCard
  with assms show ?thesis by (auto simp: draw_card_def split: list.splits)
next
  case (PlayLand c)
  with assms show ?thesis by (auto simp: play_land_def split: if_splits)
next
  case (CastSpell c cost)
  with assms show ?thesis
    by (auto simp: cast_spell_def can_afford_def Let_def dict_total_pay split: if_splits)
next
  case (AddMana mana)
  with assms show ?thesis
    using pool_nonneg_total [of mana] by (auto simp: add_mana_def dict_total_add)
next
  case ClearManaPool
  with assms show ?thesis by (auto simp: clear_mana_pool_def dict_total_def)
qed

lemma apply_op_entries_nonneg:
  assumes "pool_nonneg (mana_pool s)" and "adds_nonneg op" and "\<not> is_cast op"
    and "apply_op s op = Inr s'"
  shows "pool_nonneg (mana_pool s')"
proof (cases op)
  case DrawCard
  with assms show ?thesis by (auto simp: draw_card_def split: list.splits)
next
  case (PlayLand c)
  with assms show ?thesis by (auto simp: play_land_def split: if_splits)
next
  case (CastSpell c cost)
  with assms show ?thesis by simp
next
  case (AddMana mana)
  with assms show ?thesis by (auto simp: add_mana_def pool_nonneg_add)
next
  case ClearManaPool
  with assms show ?thesis by (auto simp: clear_mana_pool_def pool_nonneg_def)
qed

lemma run_ops_total_nonneg:
  "0 \<le> dict_total (mana_pool s) \<Longrightarrow> list_all adds_nonneg ops \<Longrightarrow>
   list_all (\<lambda>t. 0 \<le> dict_total (mana_pool t)) (run_ops s ops)"
proof (induction ops arbitrary: s)
  case Nil
  then show ?case by simp
next
  case (Cons op ops)
  show ?case
  proof (cases "apply_op s op")
    case (Inl e)
    then show ?thesis by simp
  next
    case (Inr s')
    with Cons.prems have "0 \<le> dict_total (mana_pool s')"
      using apply_op_total_nonneg [of s op s'] by simp
    with Cons Inr show ?thesis by simp
  qed
qed

lemma run_ops_entries_nonneg:
  "pool_nonneg (mana_pool s) \<Longrightarrow> list_all adds_nonneg ops \<Longrightarrow>
   list_all (\<lambda>op. \<not> is_cast op) ops \<Longrightarrow>
   list_all (\<lambda>t. pool_nonneg (mana_pool t)) (run_ops s ops)"
proof (induction ops arbitrary: s)
  case Nil
  then show ?case by simp
next
  case (Cons op ops)
  show ?case
  proof (cases "apply_op s op")
    case (Inl e)
    then show ?thesis by simp
  next
    case (Inr s')
    with Cons.prems have "pool_nonneg (mana_pool s')"
      using apply_op_entries_nonneg [of s op s'] by simp
    with Cons Inr show ?thesis by simp
  qed
qed

text \<open>
  C10.  \<open>draw_card\<close> moves the head of the library to the tail of the hand, the rest of the
  library keeping its order; on an empty library it returns \<open>None\<close>, raises nothing and
  leaves the state as it is.
\<close>

theorem draw_card_moves_head:
  "(library s = [] \<longrightarrow> draw_card s = (None, s)) \<and>
   (\<forall>c rest. library s = c # rest \<longrightarrow>
      draw_card s = (Some c, s\<lparr> library := rest, hand := hand s @ [c] \<rparr>) \<and>
      library (snd (draw_card s)) = rest \<and>
      hand (snd (draw_card s)) = hand s @ [c] \<and>
      battlefield (snd (draw_card s)) = battlefield s \<and>
      graveyard (snd (draw_card s)) = graveyard s)"
  by (simp add: draw_card_def)

theorem draw_card_moves_head_witness:
  "library init_state = [] \<and> draw_card init_state = (None, init_state) \<and>
   library ex_state = ex_forest # [ex_island] \<and>
   library (snd (draw_card ex_state)) = [ex_island] \<and>
   hand (snd (draw_card ex_state)) = [ex_untagged_land, ex_bolt, ex_swamp, ex_forest]"
  using draw_card_moves_head [of init_state] draw_card_moves_head [of ex_state]
  by (simp add: init_state_def ex_state_def)

lemmas ex_defs = ex_state_def init_state_def mk_card_def ex_forest_def ex_island_def
  ex_untagged_land_def ex_bolt_def ex_bear_def ex_swamp_def

lemmas op_defs = draw_card_def play_land_def cast_spell_def add_mana_def clear_mana_pool_def
  can_afford_def dict_total_def card_in_def card_eq_def is_land_def is_permanent_def

text \<open>
  C5 (as the code has it).  \<open>play_land\<close> succeeds exactly when no land has been played this
  turn, a card equal to the given one is in hand, and the card's type line contains
  \<open>Land\<close> (\<open>Card.is_land\<close>; the tag list is not consulted).  On success the card leaves the
  hand, is appended to the battlefield, becomes the turn's land and is appended to the
  cards played this turn; on failure the result is \<open>False\<close> and the state is unchanged.
  After a success every further \<open>play_land\<close> fails, whatever the card.
\<close>

theorem play_land_spec:
  "(fst (play_land s c) \<longleftrightarrow>
      land_played_this_turn s = None \<and> card_in c (hand s) \<and> is_land c) \<and>
   (fst (play_land s c) \<longrightarrow>
      snd (play_land s c) =
        s\<lparr> hand := list_remove c (hand s), battlefield := battlefield s @ [c],
           land_played_this_turn := Some c,
           cards_played_this_turn := cards_played_this_turn s @ [c] \<rparr>) \<and>
   (\<not> fst (play_land s c) \<longrightarrow> snd (play_land s c) = s) \<and>
   (fst (play_land s c) \<longrightarrow>
      (\<forall>d. play_land (snd (play_land s c)) d = (False, snd (play_land s c))))"
  by (simp add: play_land_def)

theorem play_land_spec_witness:
  "fst (play_land ex_state ex_untagged_land) \<and>
   hand (snd (play_land ex_state ex_untagged_land)) = [ex_bolt, ex_swamp] \<and>
   battlefield (snd (play_land ex_state ex_untagged_land)) = [ex_untagged_land] \<and>
   land_played_this_turn (snd (play_land ex_state ex_untagged_land)) = Some ex_untagged_land \<and>
   play_land (snd (play_land ex_state ex_untagged_land)) ex_swamp =
     (False, snd (play_land ex_state ex_untagged_land)) \<and>
   \<not> fst (play_land ex_state ex_bolt) \<and> snd (play_land ex_state ex_bolt) = ex_state"
  using play_land_spec [of ex_state ex_untagged_land] play_land_spec [of ex_state ex_bolt]
  by (simp add: ex_defs op_defs)

text \<open>A card whose type line is \<open>Land\<close> and whose tag list is empty is played: success does
  not depend on the card carrying the \<open>LAND\<close> tag.\<close>

theorem play_land_tag_counterexample:
  "\<not> (fst (play_land ex_state ex_untagged_land) \<longleftrightarrow>
        land_played_this_turn ex_state = None \<and> card_in ex_untagged_land (hand ex_state) \<and>
        ''LAND'' \<in> set (tags ex_untagged_land))"
  by (simp add: ex_defs op_defs)

lemma dict_get_set: "dict_get (dict_set d k v) k' = (if k' = k then v else dict_get d k')"
  by (induction d) auto

lemma dict_get_pay:
  "dict_get (pay_cost pool cost) k =
     dict_get pool k - sum_list (map snd (filter (\<lambda>item. fst item = k) cost))"
proof (induction cost arbitrary: pool)
  case Nil
  show ?case by simp
next
  case (Cons a cost)
  obtain k' v where a: "a = (k', v)" by (cases a)
  show ?case by (simp add: a Cons.IH dict_get_set)
qed

text \<open>
  C3 (as the code has it).  \<open>cast_spell\<close> returns \<open>True\<close> exactly when a card equal to the
  given one is in hand and the pool total is at least the cost total.  On success the
  cost is deducted colour by colour (the total drops by the cost total), the card leaves
  the hand and goes to the battlefield unless its type line contains \<open>Instant\<close> or
  \<open>Sorcery\<close>, in which case it goes to the graveyard.  An unaffordable cast of a card in
  hand raises \<open>ValueError\<close>; for a card that is not in hand the call returns \<open>False\<close> and
  changes nothing, affordable or not.
\<close>

theorem cast_spell_spec:
  "((\<exists>s'. cast_spell s c cost = Inr (True, s')) \<longleftrightarrow> card_in c (hand s) \<and> can_afford s cost) \<and>
   (card_in c (hand s) \<and> can_afford s cost \<longrightarrow>
      cast_spell s c cost =
        Inr (True,
          if is_permanent c
          then s\<lparr> hand := list_remove c (hand s), battlefield := battlefield s @ [c],
                  mana_pool := pay_cost (mana_pool s) cost,
                  cards_played_this_turn := cards_played_this_turn s @ [c] \<rparr>
          else s\<lparr> hand := list_remove c (hand s), graveyard := graveyard s @ [c],
                  mana_pool := pay_cost (mana_pool s) cost \<rparr>) \<and>
      dict_total (pay_cost (mana_pool s) cost) = dict_total (mana_pool s) - dict_total cost \<and>
      (\<forall>k. dict_get (pay_cost (mana_pool s) cost) k =
            dict_get (mana_pool s) k - sum_list (map snd (filter (\<lambda>item. fst item = k) cost)))) \<and>
   (is_permanent c \<longleftrightarrow>
      \<not> (str_in ''Instant'' (type_line c) \<or> str_in ''Sorcery'' (type_line c))) \<and>
   (card_in c (hand s) \<and> \<not> can_afford s cost \<longrightarrow> cast_spell s c cost = Inl ValueError) \<and>
   (\<not> card_in c (hand s) \<longrightarrow> cast_spell s c cost = Inr (False, s))"
  by (simp add: cast_spell_def Let_def dict_total_pay dict_get_pay is_permanent_def)

theorem cast_spell_spec_witness:
  "cast_spell ex_state ex_bolt [(''R'', 1)] =
     Inr (True, ex_state\<lparr> hand := [ex_untagged_land, ex_swamp], graveyard := [ex_bolt],
                          mana_pool := [(''colorless'', 3), (''R'', - 1)] \<rparr>) \<and>
   cast_spell ex_state ex_bolt [(''R'', 4)] = Inl ValueError \<and>
   cast_spell ex_state ex_bear [(''colorless'', 2)] = Inr (False, ex_state)"
  using cast_spell_spec [of ex_state ex_bolt "[(''R'', 1)]"]
    cast_spell_spec [of ex_state ex_bolt "[(''R'', 4)]"]
    cast_spell_spec [of ex_state ex_bear "[(''colorless'', 2)]"]
  by (simp add: ex_defs op_defs)

text \<open>An unaffordable cast of a card that is not in hand returns \<open>False\<close>: it does not raise.\<close>

theorem cast_spell_raise_counterexample:
  "\<not> can_afford ex_state [(''colorless'', 9)] \<and>
   cast_spell ex_state ex_bear [(''colorless'', 9)] = Inr (False, ex_state) \<and>
   cast_spell ex_state ex_bear [(''colorless'', 9)] \<noteq> Inl ValueError"
  by (simp add: ex_defs op_defs)

text \<open>
  C1 (as the code has it).  Starting from a pool of non-negative values and adding only
  non-negative amounts, the pool total is non-negative after every operation of every
  sequence of \<open>draw_card\<close>, \<open>play_land\<close>, \<open>cast_spell\<close>, \<open>add_mana\<close> and \<open>clear_mana_pool\<close>;
  every single pool value is non-negative after every operation as long as the sequence
  contains no \<open>cast_spell\<close>.
\<close>

theorem mana_pool_total_nonneg:
  assumes "pool_nonneg (mana_pool s)" and "list_all adds_nonneg ops"
  shows "list_all (\<lambda>t. 0 \<le> dict_total (mana_pool t)) (run_ops s ops) \<and>
         (list_all (\<lambda>op. \<not> is_cast op) ops \<longrightarrow>
            list_all (\<lambda>t. pool_nonneg (mana_pool t)) (run_ops s ops))"
  using assms run_ops_total_nonneg [of s ops] run_ops_entries_nonneg [of s ops]
    pool_nonneg_total [of "mana_pool s"]
  by simp

theorem mana_pool_total_nonneg_witness:
  "pool_nonneg (mana_pool ex_state) \<and>
   length (run_ops ex_state
     [DrawCard, PlayLand ex_swamp, AddMana [(''colorless'', 1)],
      CastSpell ex_bolt [(''R'', 1)], ClearManaPool]) = 5 \<and>
   list_all (\<lambda>t. 0 \<le> dict_total (mana_pool t))
     (run_ops ex_state
       [DrawCard, PlayLand ex_swamp, AddMana [(''colorless'', 1)],
        CastSpell ex_bolt [(''R'', 1)], ClearManaPool]) \<and>
   list_all (\<lambda>t. pool_nonneg (mana_pool t))
     (run_ops ex_state [DrawCard, PlayLand ex_swamp, AddMana [(''R'', 1)], ClearManaPool])"
  using mana_pool_total_nonneg [of ex_state
      "[DrawCard, PlayLand ex_swamp, AddMana [(''colorless'', 1)],
        CastSpell ex_bolt [(''R'', 1)], ClearManaPool]"]
    mana_pool_total_nonneg [of ex_state
      "[DrawCard, PlayLand ex_swamp, AddMana [(''R'', 1)], ClearManaPool]"]
  by (simp add: ex_defs op_defs pool_nonneg_def)

text \<open>With three colourless mana in the pool, casting a spell that costs one red mana is
  affordable by totals and leaves the entry for \<open>R\<close> at \<open>-1\<close>; adding a negative amount
  does the same.\<close>

theorem mana_pool_entry_counterexample:
  "pool_nonneg (mana_pool ex_state) \<and>
   map mana_pool (run_ops ex_state [CastSpell ex_bolt (mana_cost ex_bolt)]) =
     [[(''colorless'', 3), (''R'', - 1)]] \<and>
   \<not> list_all (\<lambda>t. pool_nonneg (mana_pool t))
        (run_ops ex_state [CastSpell ex_bolt (mana_cost ex_bolt)]) \<and>
   \<not> list_all (\<lambda>t. pool_nonneg (mana_pool t)) (run_ops ex_state [AddMana [(''R'', - 1)]])"
  by (simp add: ex_defs op_defs pool_nonneg_def)

section \<open>Properties of the classifier\<close>

lemma tag_add_mem: "x \<in> set (tag_add t ts) \<longleftrightarrow> x = t \<or> x \<in> set ts"
  by (auto simp: tag_add_def)

lemma tag_if_mem: "x \<in> set (tag_if b t ts) \<longleftrightarrow> (b \<and> x = t) \<or> x \<in> set ts"
  by (auto simp: tag_if_def tag_add_mem)

lemma tag_update_set: "set (tag_update new ts) = set new \<union> set ts"
  unfolding tag_update_def
proof (induction new arbitrary: ts)
  case Nil
  show ?case by simp
next
  case (Cons a new)
  show ?case by (auto simp: Cons.IH tag_add_mem)
qed

lemma static_table_no_fetch:
  "(n, ts) \<in> set STATIC_CARD_TAGS \<Longrightarrow> ''FETCH_LAND'' \<notin> set ts"
  unfolding STATIC_CARD_TAGS_def by auto

lemma static_tags_no_fetch: "''FETCH_LAND'' \<notin> set (static_tags n)"
proof (cases "map_of STATIC_CARD_TAGS n")
  case None
  then show ?thesis by (simp add: static_tags_def)
next
  case (Some ts)
  then have "(n, ts) \<in> set STATIC_CARD_TAGS" by (rule map_of_SomeD)
  then have "''FETCH_LAND'' \<notin> set ts" by (rule static_table_no_fetch)
  with Some show ?thesis by (simp add: static_tags_def tag_update_set)
qed

lemma re_search_rmatch:
  "re_search r s = Some g \<Longrightarrow> \<exists>t rest. (g, rest) \<in> set (rmatch r t)"
proof (induction s)
  case Nil
  show ?case
  proof (cases "rmatch r []")
    case Nil
    with \<open>re_search r [] = Some g\<close> show ?thesis by simp
  next
    case (Cons p ps)
    with \<open>re_search r [] = Some g\<close> have "(g, snd p) \<in> set (rmatch r [])"
      by (cases p) auto
    then show ?thesis by blast
  qed
next
  case (Cons c cs)
  show ?case
  proof (cases "rmatch r (c # cs)")
    case Nil
    with Cons show ?thesis by simp
  next
    case (Cons p ps)
    with Cons.prems have "(g, snd p) \<in> set (rmatch r (c # cs))"
      by (cases p) auto
    then show ?thesis by blast
  qed
qed

lemma rmatch_Seq_group:
  assumes "(g, r) \<in> set (rmatch (Seq a b) s)"
    and "\<And>t g r. (g, r) \<in> set (rmatch b t) \<Longrightarrow> g \<in> S" and "[] \<notin> S"
  shows "g \<in> S"
  using assms by (fastforce split: if_splits)

lemma rmatch_plurals:
  "(g, r) \<in> set (rmatch (Cap (alts [Lit ''mountains'', Lit ''islands'', Lit ''plains'',
       Lit ''swamps'', Lit ''forests''])) t) \<Longrightarrow> g \<in> set basic_plurals"
  by (auto simp: alts_def basic_plurals_def prefix_def split: if_splits)

lemma seqs5: "seqs [a, b, c, d, e] = Seq a (Seq b (Seq c (Seq d e)))"
  by (simp add: seqs_def)

lemma re_count_group:
  assumes "re_search re_count s = Some g"
  shows "g \<in> set basic_plurals"
proof -
  let ?W = "Cap (alts [Lit ''mountains'', Lit ''islands'', Lit ''plains'', Lit ''swamps'',
                       Lit ''forests''])"
  from assms obtain t rest where m: "(g, rest) \<in> set (rmatch re_count t)"
    using re_search_rmatch by blast
  have nil: "[] \<notin> set basic_plurals" by (simp add: basic_plurals_def)
  have 1: "g \<in> set basic_plurals"
    if "(g, r) \<in> set (rmatch (Seq (Star AnyChar) ?W) t)" for g r t
    using that rmatch_plurals nil by (rule rmatch_Seq_group)
  have 2: "g \<in> set basic_plurals"
    if "(g, r) \<in> set (rmatch (Seq (Lit '' or more other '') (Seq (Star AnyChar) ?W)) t)"
    for g r t
    using that 1 nil by (rule rmatch_Seq_group)
  have 3: "g \<in> set basic_plurals"
    if "(g, r) \<in> set (rmatch (Seq (Alt (Lit ''three'') (Lit ''3''))
          (Seq (Lit '' or more other '') (Seq (Star AnyChar) ?W))) t)" for g r t
    using that 2 nil by (rule rmatch_Seq_group)
  show ?thesis
    using m unfolding re_count_def seqs5 by (rule rmatch_Seq_group) (erule 3, rule nil)
qed

lemma land_conditions_mem:
  assumes "x \<in> set (land_conditions ty low ts)"
  shows "x \<in> set ts \<or> x = ''COND_FASTLAND'' \<or>
         (\<exists>g \<in> set basic_plurals. x = ''COND_COUNT_3_'' @ butlast (upper g))"
proof (cases "re_search re_count low")
  case None
  with assms show ?thesis
    by (auto simp: land_conditions_def tag_add_mem split: if_splits)
next
  case (Some g)
  then have "g \<in> set basic_plurals" by (rule re_count_group)
  with assms Some show ?thesis
    by (auto simp: land_conditions_def tag_add_mem split: if_splits)
qed

lemma text_tags_no_fetch:
  "''FETCH_LAND'' \<in> set (text_tags txt ts) \<longleftrightarrow> ''FETCH_LAND'' \<in> set ts"
  by (simp add: text_tags_def Let_def tag_if_mem)

lemma type_tags_no_fetch:
  "''FETCH_LAND'' \<in> set (type_tags ty ts) \<longleftrightarrow> ''FETCH_LAND'' \<in> set ts"
  by (simp add: type_tags_def tag_if_mem)

lemma assign_tags_no_fetch: "''FETCH_LAND'' \<notin> set (assign_tags n ty txt)"
proof
  assume "''FETCH_LAND'' \<in> set (assign_tags n ty txt)"
  then have "''FETCH_LAND'' \<in> set (text_tags txt (type_tags ty (static_tags n)))"
    unfolding assign_tags_def by (auto dest!: land_conditions_mem)
  then show False
    by (simp add: text_tags_no_fetch type_tags_no_fetch static_tags_no_fetch)
qed

lemma tapped_entry_earned:
  "re_test_ignorecase re_tapped txt \<Longrightarrow> ''TAPPED_ENTRY'' \<in> set (text_tags txt ts)"
  by (simp add: text_tags_def Let_def tag_if_mem)

section \<open>Properties of the turn engine\<close>

lemma card_eq_face: "card_eq x c \<Longrightarrow> card_face x = card_face c"
  by (simp add: card_eq_def card_face_def)

lemma face_list_remove:
  "card_in c cs \<Longrightarrow>
   add_mset (card_face c) (mset (map card_face (list_remove c cs))) = mset (map card_face cs)"
proof (induction cs)
  case Nil
  then show ?case by (simp add: card_in_def)
next
  case (Cons x cs)
  show ?case
  proof (cases "card_eq x c")
    case True
    then show ?thesis by (simp add: card_eq_face)
  next
    case False
    with Cons.prems have "card_in c cs" by (auto simp: card_in_def card_eq_sym)
    with Cons.IH False show ?thesis by simp
  qed
qed

lemma face_force_tapped: "card_face (force_tapped t) = card_face t"
  by (simp add: force_tapped_def card_face_def)

lemma face_shuffle: "mset (map card_face (shuffle rnd k cs)) = mset (map card_face cs)"
  unfolding mset_map by (simp add: mset_shuffle)

lemma zone_faces_pool [simp]: "zone_faces (s\<lparr>mana_pool := p\<rparr>) = zone_faces s"
  by (simp add: zone_faces_def zones_def)

lemma draw_card_faces: "zone_faces (snd (draw_card s)) = zone_faces s"
  by (simp add: draw_card_def zone_faces_def zones_def split: list.splits)

lemma play_land_faces: "zone_faces (snd (play_land s c)) = zone_faces s"
  using face_list_remove [of c "hand s"]
  by (auto simp: play_land_def zone_faces_def zones_def)

lemma cast_spell_faces:
  "cast_spell s c cost = Inr (ok, s') \<Longrightarrow> zone_faces s' = zone_faces s"
  using face_list_remove [of c "hand s"]
  by (auto simp: cast_spell_def Let_def zone_faces_def zones_def split: if_splits)

lemma resolve_fetch_faces:
  "zone_faces (snd (snd (resolve_fetch_lands rnd k tapped s))) = zone_faces s"
proof (rule resolve_fetch_cases [of rnd k tapped s])
  assume "resolve_fetch_lands rnd k tapped s = (False, k, s)"
  then show ?thesis by simp
next
  fix f
  assume f: "find (\<lambda>f. \<not> fetch_skipped s tapped f) (filter is_fetcher (battlefield s)) = Some f"
    and r: "resolve_fetch_lands rnd k tapped s =
         (True, k, s\<lparr> battlefield := list_remove f (battlefield s),
                      graveyard := graveyard s @ [f] \<rparr>)"
  from find_fetcher(1) [OF f] have "card_in f (battlefield s)" by (rule card_in_member)
  from face_list_remove [OF this, symmetric] r show ?thesis
    by (simp add: zone_faces_def zones_def)
next
  fix f t
  assume f: "find (\<lambda>f. \<not> fetch_skipped s tapped f) (filter is_fetcher (battlefield s)) = Some f"
    and t: "find fetch_target (library s) = Some t"
    and r: "resolve_fetch_lands rnd k tapped s =
         (True, Suc k,
          s\<lparr> library := shuffle rnd k (list_remove t (library s)),
             battlefield := list_remove f (battlefield s) @ [force_tapped t],
             graveyard := graveyard s @ [f],
             cards_played_this_turn := cards_played_this_turn s @ [force_tapped t] \<rparr>)"
  from find_fetcher(1) [OF f] have inb: "card_in f (battlefield s)" by (rule card_in_member)
  from t have "t \<in> set (library s)" by (auto simp: find_Some_iff dest: nth_mem)
  then have inl: "card_in t (library s)" by (rule card_in_member)
  from face_list_remove [OF inb, symmetric] face_list_remove [OF inl, symmetric] r
  show ?thesis
    by (simp add: zone_faces_def zones_def mset_shuffle face_force_tapped)
qed

lemma cast_phase_faces: "cast_phase s = Inr (ok, s') \<Longrightarrow> zone_faces s' = zone_faces s"
  by (auto simp: cast_phase_def cast_spell_faces split: option.splits)

lemma loop_pass_faces:
  assumes "loop_pass rnd (k, tapped, s) = Inr (again, k', tapped', s')"
  shows "zone_faces s' = zone_faces s"
proof -
  obtain t1 s1 a where m: "mana_sweep (tapped, s) = (t1, s1, a)"
    by (cases "mana_sweep (tapped, s)")
  obtain c s2 where c: "cast_phase s1 = Inr (c, s2)"
    using cast_phase_no_error [of s1] by (cases "cast_phase s1") auto
  from mana_sweep_budget(3) [OF m] have 1: "zone_faces s1 = zone_faces s" by auto
  from c have 2: "zone_faces s2 = zone_faces s1" by (rule cast_phase_faces)
  show ?thesis
  proof (cases "\<not> a \<and> \<not> c")
    case True
    with assms m c have "s' = snd (snd (resolve_fetch_lands rnd k t1 s2))"
      by (auto simp: loop_pass_def split: prod.splits)
    with 1 2 show ?thesis by (simp add: resolve_fetch_faces)
  next
    case False
    with assms m c have "s' = s2" by (auto simp: loop_pass_def)
    with 1 2 show ?thesis by simp
  qed
qed

lemma main_loop_faces:
  "\<exists>k' s'. main_loop rnd x = Inr (k', s') \<and> zone_faces s' = zone_faces (snd (snd x))"
proof (induction rnd x rule: main_loop.induct)
  case (1 rnd x)
  obtain again k1 t1 s1 where p: "loop_pass rnd x = Inr (again, k1, t1, s1)"
    using loop_pass_no_error [of rnd x] by (cases "loop_pass rnd x") auto
  have f: "zone_faces s1 = zone_faces (snd (snd x))"
    using loop_pass_faces [of rnd "fst x" "fst (snd x)" "snd (snd x)" again k1 t1 s1] p by simp
  show ?case
  proof (cases again)
    case True
    from "1.IH" [OF p refl True] obtain k' s' where
      "main_loop rnd (k1, t1, s1) = Inr (k', s')" "zone_faces s' = zone_faces s1" by auto
    with p True f show ?thesis by (subst main_loop.simps) simp
  next
    case False
    with p f show ?thesis by (subst main_loop.simps) simp
  qed
qed

lemma land_drop_faces: "zone_faces (land_drop s) = zone_faces s"
  by (simp add: land_drop_def Let_def play_land_faces)

lemma step_faces:
  "\<exists>k' s'. step rnd (k, s) = Inr (k', s') \<and> zone_faces s' = zone_faces s"
proof -
  let ?s1 = "snd (draw_card s)"
  from main_loop_faces [of rnd "(k, {}, land_drop ?s1)"] obtain k' s2 where
    m: "main_loop rnd (k, {}, land_drop ?s1) = Inr (k', s2)"
    and f: "zone_faces s2 = zone_faces (land_drop ?s1)" by auto
  have "zone_faces s2 = zone_faces s" using f by (simp add: land_drop_faces draw_card_faces)
  then show ?thesis using m
    by (simp add: step_def main_phase_heuristic_def Let_def clear_mana_pool_def
        zone_faces_def zones_def)
qed

lemma run_turns_faces:
  "\<exists>k' s'. run_turns rnd n (k, s) = Inr (k', s') \<and> zone_faces s' = zone_faces s"
proof (induction n arbitrary: k s)
  case 0
  show ?case by simp
next
  case (Suc n)
  from step_faces [of rnd k s] obtain k1 s1 where
    s: "step rnd (k, s) = Inr (k1, s1)" "zone_faces s1 = zone_faces s" by auto
  from Suc.IH [of k1 s1] s show ?case by auto
qed

lemma draw_cards_faces: "zone_faces (draw_cards n s) = zone_faces s"
  by (induction n arbitrary: s) (simp_all add: draw_card_faces)

lemma start_game_faces:
  "zone_faces (snd (start_game rnd (k, init_state) deck cmd)) =
   mset (map card_face (deck_library deck cmd))"
proof -
  let ?s1 = "init_state\<lparr> commander := find_commander deck cmd,
      library := shuffle rnd (Suc k) (shuffle rnd k (deck_library deck cmd)) \<rparr>"
  have "zone_faces (snd (start_game rnd (k, init_state) deck cmd)) = zone_faces (draw_cards 7 ?s1)"
    by (simp add: start_game_def Let_def zone_faces_def zones_def)
  also have "\<dots> = zone_faces ?s1" by (rule draw_cards_faces)
  also have "\<dots> = mset (map card_face (deck_library deck cmd))"
    by (simp add: zone_faces_def zones_def init_state_def mset_shuffle)
  finally show ?thesis .
qed

lemma zones_size:
  "length (library s) + length (hand s) + length (battlefield s) + length (graveyard s) =
   size (zone_faces s)"
  by (simp add: zone_faces_def zones_def)

lemma hd_sort_key_first:
  assumes "xs \<noteq> []" and m_def: "m = hd (sort_key f xs)"
  shows "m \<in> set xs" and "\<forall>x \<in> set xs. f m \<le> f x"
    and "m = hd (filter (\<lambda>y. f y = f m) xs)"
proof -
  from assms(1) have "sort_key f xs \<noteq> []" by (metis length_0_conv length_sort)
  then obtain rest where ys: "sort_key f xs = m # rest"
    unfolding m_def by (cases "sort_key f xs") auto
  have "m \<in> set (sort_key f xs)" by (simp add: ys)
  then show "m \<in> set xs" by simp
  have "sorted (map f (sort_key f xs))" by (rule sorted_sort_key)
  then have "\<forall>x \<in> set (sort_key f xs). f m \<le> f x" by (auto simp: ys)
  then show "\<forall>x \<in> set xs. f m \<le> f x" by simp
  have "filter (\<lambda>y. f y = f m) xs = filter (\<lambda>y. f y = f m) (sort_key f xs)"
    by (rule sort_key_stable [symmetric])
  then show "m = hd (filter (\<lambda>y. f y = f m) xs)" by (simp add: ys)
qed

lemma choose_spell_first:
  assumes "choose_spell s = Some c"
  shows "c \<in> set (hand s)" and "\<not> is_land c" and "can_afford s (mana_cost c)"
    and "\<forall>d \<in> set (hand s). \<not> is_land d \<and> can_afford s (mana_cost d) \<longrightarrow> cmc d \<le> cmc c"
    and "c = hd (filter (\<lambda>d. \<not> is_land d \<and> can_afford s (mana_cost d) \<and> cmc d = cmc c) (hand s))"
proof -
  from assms have ne: "affordable s \<noteq> []"
    and c: "c = hd (sort_key (\<lambda>c. - cmc c) (affordable s))"
    by (auto simp: choose_spell_def split: if_splits)
  note h = hd_sort_key_first [OF ne c]
  from h(1) show "c \<in> set (hand s)" "\<not> is_land c" "can_afford s (mana_cost c)"
    by (simp_all add: affordable_props)
  from h(2) show "\<forall>d \<in> set (hand s). \<not> is_land d \<and> can_afford s (mana_cost d) \<longrightarrow> cmc d \<le> cmc c"
    by (auto simp: affordable_props)
  have "filter (\<lambda>y. - cmc y = - cmc c) (affordable s) =
        filter (\<lambda>d. \<not> is_land d \<and> can_afford s (mana_cost d) \<and> cmc d = cmc c) (hand s)"
    by (auto simp: affordable_def intro: filter_cong)
  with h(3) show "c = hd (filter (\<lambda>d. \<not> is_land d \<and> can_afford s (mana_cost d) \<and> cmc d = cmc c) (hand s))"
    by simp
qed

lemma loop_pass_hand:
  assumes "loop_pass rnd (k, tapped, s) = Inr (again, k', tapped', s')"
  shows "case choose_spell (fst (snd (mana_sweep (tapped, s)))) of
           None \<Rightarrow> hand s' = hand s
         | Some c \<Rightarrow> hand s' = list_remove c (hand s)"
proof -
  obtain t1 s1 a where m: "mana_sweep (tapped, s) = (t1, s1, a)"
    by (cases "mana_sweep (tapped, s)")
  from mana_sweep_budget(3) [OF m] have h1: "hand s1 = hand s" by auto
  have fetch_hand: "hand (snd (snd (resolve_fetch_lands rnd k t1 x))) = hand x" for x
    by (rule resolve_fetch_cases [of rnd k t1 x]) simp_all
  show ?thesis
  proof (rule cast_phase_cases [of s1])
    assume n: "choose_spell s1 = None" and c: "cast_phase s1 = Inr (False, s1)"
    from assms m c have "s' = snd (snd (resolve_fetch_lands rnd k t1 s1)) \<or> s' = s1"
      by (auto simp: loop_pass_def split: prod.splits if_splits)
    with n m h1 fetch_hand [of s1] show ?thesis by auto
  next
    fix c
    assume n: "choose_spell s1 = Some c"
      and c: "cast_phase s1 = Inr (True, s1\<lparr> hand := list_remove c (hand s1),
          battlefield := battlefield s1 @ [c], mana_pool := pay_cost (mana_pool s1) (mana_cost c),
          cards_played_this_turn := cards_played_this_turn s1 @ [c] \<rparr>)"
    from assms m c n h1 show ?thesis by (auto simp: loop_pass_def)
  next
    fix c
    assume n: "choose_spell s1 = Some c"
      and c: "cast_phase s1 = Inr (True, s1\<lparr> hand := list_remove c (hand s1),
          graveyard := graveyard s1 @ [c], mana_pool := pay_cost (mana_pool s1) (mana_cost c) \<rparr>)"
    from assms m c n h1 show ?thesis by (auto simp: loop_pass_def)
  qed
qed

lemma loop_passes_bound:
  "loop_passes rnd x \<le> Suc (loop_budget (fst (snd x)) (snd (snd x)))"
proof (induction rnd x rule: loop_passes.induct)
  case (1 rnd x)
  obtain again k1 t1 s1 where p: "loop_pass rnd x = Inr (again, k1, t1, s1)"
    using loop_pass_no_error [of rnd x] by (cases "loop_pass rnd x") auto
  show ?case
  proof (cases again)
    case True
    from "1.IH" [OF p refl True] have "loop_passes rnd (k1, t1, s1) \<le> Suc (loop_budget t1 s1)"
      by simp
    moreover have "loop_budget t1 s1 < loop_budget (fst (snd x)) (snd (snd x))"
      using loop_pass_budget [of rnd "fst x" "fst (snd x)" "snd (snd x)" k1 t1 s1] p True by simp
    ultimately show ?thesis using p True by (subst loop_passes.simps) simp
  next
    case False
    with p show ?thesis by (subst loop_passes.simps) simp
  qed
qed

lemma land_drop_budget:
  "loop_budget {} (land_drop s) \<le>
     length (battlefield s) + 2 * length (hand s) + length (filter is_fetcher (battlefield s)) +
     length (filter is_fetcher (hand s)) + length (filter is_fetcher (library s))"
proof (cases "filter is_land (hand s) \<noteq> [] \<and> land_played_this_turn s = None")
  case False
  have "length (filter (tappable {} (cards_played_this_turn s)) (battlefield s))
      \<le> length (battlefield s)" by (rule length_filter_le)
  with False show ?thesis by (auto simp: land_drop_def Let_def loop_budget_def)
next
  case True
  let ?l = "hd (filter is_land (hand s))"
  from True have "?l \<in> set (filter is_land (hand s))" by (intro hd_in_set) simp
  then have l: "?l \<in> set (hand s)" "is_land ?l" by auto
  then have inh: "card_in ?l (hand s)" by (simp add: card_in_member)
  define E where "E = length (filter (tappable {} (cards_played_this_turn s @ [?l])) (battlefield s))"
  define H where "H = 2 * length (list_remove ?l (hand s)) +
      length (filter is_fetcher (list_remove ?l (hand s)))"
  have e: "E \<le> length (battlefield s)" unfolding E_def by (rule length_filter_le)
  have h: "H + 2 + (if is_fetcher ?l then 1 else 0) =
      2 * length (hand s) + length (filter is_fetcher (hand s))"
    unfolding H_def using hand_weight_remove [OF l(1)] by simp
  have d: "land_drop s = s\<lparr> hand := list_remove ?l (hand s), battlefield := battlefield s @ [?l],
      land_played_this_turn := Some ?l,
      cards_played_this_turn := cards_played_this_turn s @ [?l] \<rparr>"
    using True l inh by (simp add: land_drop_def Let_def play_land_def)
  have "loop_budget {} (land_drop s) \<le>
      E + 1 + length (filter is_fetcher (battlefield s)) + (if is_fetcher ?l then 1 else 0) + H +
      length (filter is_fetcher (library s))"
    unfolding d by (simp add: loop_budget_def E_def H_def)
  with e h show ?thesis by (simp split: if_splits)
qed

lemma loop_pass_progress:
  assumes "loop_pass rnd (k, tapped, s) = Inr (True, k', tapped', s')"
  shows "tapped \<subset> tapped' \<or> length (hand s') < length (hand s) \<or>
         (\<exists>f \<in> set (battlefield s). is_fetcher f \<and> graveyard s' = graveyard s @ [f])"
proof -
  obtain t1 s1 a where m: "mana_sweep (tapped, s) = (t1, s1, a)"
    by (cases "mana_sweep (tapped, s)")
  note sw = mana_sweep_budget [OF m]
  from sw(3) have same: "hand s1 = hand s" "battlefield s1 = battlefield s"
    "graveyard s1 = graveyard s" by auto
  obtain c s2 where c: "cast_phase s1 = Inr (c, s2)"
    using cast_phase_no_error [of s1] by (cases "cast_phase s1") auto
  have t: "tapped' = t1" using assms m c by (auto simp: loop_pass_def split: prod.splits if_splits)
  show ?thesis
  proof (cases a)
    case True
    with sw(4,5) t show ?thesis by auto
  next
    case na: False
    show ?thesis
    proof (cases c)
      case True
      with assms m c have s': "s' = s2" by (auto simp: loop_pass_def)
      have "length (hand s2) < length (hand s1)"
      proof (rule cast_phase_cases [of s1])
        assume "cast_phase s1 = Inr (False, s1)"
        with c True show ?thesis by simp
      next
        fix d assume "d \<in> set (hand s1)"
          "cast_phase s1 = Inr (True, s1\<lparr> hand := list_remove d (hand s1),
            battlefield := battlefield s1 @ [d], mana_pool := pay_cost (mana_pool s1) (mana_cost d),
            cards_played_this_turn := cards_played_this_turn s1 @ [d] \<rparr>)"
        with c length_list_remove [of d "hand s1"] show ?thesis
          by (auto simp: card_in_member)
      next
        fix d assume "d \<in> set (hand s1)"
          "cast_phase s1 = Inr (True, s1\<lparr> hand := list_remove d (hand s1),
            graveyard := graveyard s1 @ [d], mana_pool := pay_cost (mana_pool s1) (mana_cost d) \<rparr>)"
        with c length_list_remove [of d "hand s1"] show ?thesis
          by (auto simp: card_in_member)
      qed
      with s' same show ?thesis by simp
    next
      case nc: False
      with c have s2: "s2 = s1" by (simp add: cast_phase_False)
      from na nc assms m c s2 have r: "resolve_fetch_lands rnd k t1 s1 = (True, k', s')"
        by (auto simp: loop_pass_def split: prod.splits)
      have "\<exists>f \<in> set (battlefield s1). is_fetcher f \<and> graveyard s' = graveyard s1 @ [f]"
      proof (rule resolve_fetch_cases [of rnd k t1 s1])
        assume "resolve_fetch_lands rnd k t1 s1 = (False, k, s1)"
        with r show ?thesis by simp
      next
        fix f
        assume f: "find (\<lambda>f. \<not> fetch_skipped s1 t1 f) (filter is_fetcher (battlefield s1)) = Some f"
          and "resolve_fetch_lands rnd k t1 s1 =
            (True, k, s1\<lparr> battlefield := list_remove f (battlefield s1),
                          graveyard := graveyard s1 @ [f] \<rparr>)"
        with r find_fetcher(1,2) [OF f] show ?thesis by auto
      next
        fix f t
        assume f: "find (\<lambda>f. \<not> fetch_skipped s1 t1 f) (filter is_fetcher (battlefield s1)) = Some f"
          and "resolve_fetch_lands rnd k t1 s1 =
           (True, Suc k,
            s1\<lparr> library := shuffle rnd k (list_remove t (library s1)),
               battlefield := list_remove f (battlefield s1) @ [force_tapped t],
               graveyard := graveyard s1 @ [f],
               cards_played_this_turn := cards_played_this_turn s1 @ [force_tapped t] \<rparr>)"
        with r find_fetcher(1,2) [OF f] show ?thesis by auto
      qed
      with same show ?thesis by simp
    qed
  qed
qed

lemma loop_passes_pos: "0 < loop_passes rnd x"
  by (subst loop_passes.simps) (simp split: sum.splits prod.splits)

lemma main_loop_passes:
  "\<exists>x'. loop_pass rnd (pass_start rnd (loop_passes rnd x - 1) x) = Inr (False, x') \<and>
        main_loop rnd x = Inr (fst x', snd (snd x')) \<and>
        (\<forall>i < loop_passes rnd x - 1. \<exists>y. loop_pass rnd (pass_start rnd i x) = Inr (True, y))"
proof (induction rnd x rule: loop_passes.induct)
  case (1 rnd x)
  obtain again x1 where p: "loop_pass rnd x = Inr (again, x1)"
    using loop_pass_no_error [of rnd x] by (cases "loop_pass rnd x") auto
  show ?case
  proof (cases again)
    case False
    with p have n: "loop_passes rnd x = 1" by (subst loop_passes.simps) simp
    from p False have m: "main_loop rnd x = Inr (fst x1, snd (snd x1))"
      by (subst main_loop.simps) simp
    from p False n m show ?thesis by simp
  next
    case True
    define m where "m = loop_passes rnd x1"
    have mpos: "0 < m" unfolding m_def by (rule loop_passes_pos)
    from p True have n: "loop_passes rnd x = Suc m"
      unfolding m_def by (subst loop_passes.simps) simp
    from p True have ml: "main_loop rnd x = main_loop rnd x1"
      by (subst main_loop.simps) simp
    from "1.IH" [OF p refl True] obtain x' where
      last: "loop_pass rnd (pass_start rnd (m - 1) x1) = Inr (False, x')"
      and res: "main_loop rnd x1 = Inr (fst x', snd (snd x'))"
      and before: "\<forall>i < m - 1. \<exists>y. loop_pass rnd (pass_start rnd i x1) = Inr (True, y)"
      unfolding m_def by blast
    have shift: "pass_start rnd (Suc j) x = pass_start rnd j x1" for j
      using p by simp
    have e1: "Suc m - 1 = Suc (m - 1)" using mpos by simp
    have "loop_pass rnd (pass_start rnd (Suc m - 1) x) = Inr (False, x')"
      unfolding e1 shift by (rule last)
    moreover have "\<exists>y. loop_pass rnd (pass_start rnd i x) = Inr (True, y)" if "i < Suc m - 1" for i
    proof (cases i)
      case 0
      have "loop_pass rnd (pass_start rnd 0 x) = Inr (True, x1)" using p True by simp
      then show ?thesis unfolding 0 by (rule exI)
    next
      case (Suc j)
      with that have "j < m - 1" by simp
      with before show ?thesis unfolding Suc shift by blast
    qed
    ultimately show ?thesis using res ml n by auto
  qed
qed

section \<open>The classifier and the engine against the specification\<close>

text \<open>
  C8 (as the code has it).  For a card whose type line contains \<open>Land\<close> and whose oracle
  text earned the tapped-entry tag, the secondary pass is an ordered chain in which the
  first matching rule decides: a text matching "unless you control two or more basic
  lands" loses the tag; a text matching "unless you control two or fewer other lands",
  and none of the three rules tried before it (two or more basic lands, a/an basic type,
  pay/reveal), keeps the tag and gains \<open>COND_FASTLAND\<close>; a text matching the count rule
  "three or more other ... (basic type)s", and none of the four rules before it, keeps the
  tag and gains \<open>COND_COUNT_3_\<close> followed by the upper-case singular of the basic type
  found; a text that matches no rule of the chain keeps its tags as they are.
\<close>

theorem land_exception_pass:
  assumes land: "str_in ''Land'' ty" and earned: "re_test_ignorecase re_tapped txt"
  shows
    "(re_test re_two_basics (lower txt) \<longrightarrow> ''TAPPED_ENTRY'' \<notin> set (assign_tags n ty txt)) \<and>
     (\<not> re_test re_two_basics (lower txt) \<and> \<not> re_test re_checkland (lower txt) \<and>
      \<not> re_test re_pay_reveal (lower txt) \<and> re_test re_fastland (lower txt) \<longrightarrow>
        ''TAPPED_ENTRY'' \<in> set (assign_tags n ty txt) \<and>
        ''COND_FASTLAND'' \<in> set (assign_tags n ty txt)) \<and>
     (\<not> re_test re_two_basics (lower txt) \<and> \<not> re_test re_checkland (lower txt) \<and>
      \<not> re_test re_pay_reveal (lower txt) \<and> \<not> re_test re_fastland (lower txt) \<and>
      re_test re_count (lower txt) \<longrightarrow>
        ''TAPPED_ENTRY'' \<in> set (assign_tags n ty txt) \<and>
        (\<exists>g \<in> set basic_plurals.
           re_search re_count (lower txt) = Some g \<and>
           ''COND_COUNT_3_'' @ butlast (upper g) \<in> set (assign_tags n ty txt))) \<and>
     (\<not> re_test re_two_basics (lower txt) \<and> \<not> re_test re_checkland (lower txt) \<and>
      \<not> re_test re_pay_reveal (lower txt) \<and> \<not> re_test re_fastland (lower txt) \<and>
      \<not> re_test re_count (lower txt) \<and> \<not> re_test re_opponent (lower txt) \<and>
      \<not> re_test re_three_or_more (lower txt) \<longrightarrow>
        assign_tags n ty txt = text_tags txt (type_tags ty (static_tags n)) \<and>
        ''TAPPED_ENTRY'' \<in> set (assign_tags n ty txt))"
proof -
  let ?pre = "text_tags txt (type_tags ty (static_tags n))"
  have te: "''TAPPED_ENTRY'' \<in> set ?pre"
    using earned by (rule tapped_entry_earned)
  have a: "re_test re_two_basics (lower txt) \<Longrightarrow> ''TAPPED_ENTRY'' \<notin> set (assign_tags n ty txt)"
    using land te by (simp add: assign_tags_def land_conditions_def)
  have b: "''TAPPED_ENTRY'' \<in> set (assign_tags n ty txt) \<and>
           ''COND_FASTLAND'' \<in> set (assign_tags n ty txt)"
    if "\<not> re_test re_two_basics (lower txt)" "\<not> re_test re_checkland (lower txt)"
       "\<not> re_test re_pay_reveal (lower txt)" "re_test re_fastland (lower txt)"
    using that land te by (simp add: assign_tags_def land_conditions_def tag_add_mem)
  have c: "''TAPPED_ENTRY'' \<in> set (assign_tags n ty txt) \<and>
        (\<exists>g \<in> set basic_plurals.
           re_search re_count (lower txt) = Some g \<and>
           ''COND_COUNT_3_'' @ butlast (upper g) \<in> set (assign_tags n ty txt))"
    if "\<not> re_test re_two_basics (lower txt)" "\<not> re_test re_checkland (lower txt)"
       "\<not> re_test re_pay_reveal (lower txt)" "\<not> re_test re_fastland (lower txt)"
       "re_test re_count (lower txt)"
  proof -
    from that(5) obtain g where g: "re_search re_count (lower txt) = Some g"
      by (auto simp: re_test_def)
    then have "g \<in> set basic_plurals" by (rule re_count_group)
    with that g land te show ?thesis
      by (simp add: assign_tags_def land_conditions_def tag_add_mem)
  qed
  have d: "assign_tags n ty txt = ?pre \<and> ''TAPPED_ENTRY'' \<in> set (assign_tags n ty txt)"
    if "\<not> re_test re_two_basics (lower txt)" "\<not> re_test re_checkland (lower txt)"
       "\<not> re_test re_pay_reveal (lower txt)" "\<not> re_test re_fastland (lower txt)"
       "\<not> re_test re_count (lower txt)" "\<not> re_test re_opponent (lower txt)"
       "\<not> re_test re_three_or_more (lower txt)"
    using that land te by (simp add: assign_tags_def land_conditions_def re_test_def)
  from a b c d show ?thesis by blast
qed

theorem land_exception_pass_witness:
  "''TAPPED_ENTRY'' \<notin> set (assign_tags ''X'' ''Land'' ex_two_basics_text) \<and>
   ''TAPPED_ENTRY'' \<in> set (assign_tags ''X'' ''Land'' ex_fastland_text) \<and>
   ''COND_FASTLAND'' \<in> set (assign_tags ''X'' ''Land'' ex_fastland_text) \<and>
   ''TAPPED_ENTRY'' \<in> set (assign_tags ''X'' ''Land'' ex_count_text) \<and>
   (\<exists>g \<in> set basic_plurals.
      re_search re_count (lower ex_count_text) = Some g \<and>
      ''COND_COUNT_3_'' @ butlast (upper g) \<in> set (assign_tags ''X'' ''Land'' ex_count_text)) \<and>
   ''TAPPED_ENTRY'' \<in> set (assign_tags ''X'' ''Land'' ex_plain_tapped_text)"
proof -
  have land: "str_in ''Land'' ''Land''" by code_simp
  have e1: "re_test_ignorecase re_tapped ex_two_basics_text" by code_simp
  have e2: "re_test_ignorecase re_tapped ex_fastland_text" by code_simp
  have e3: "re_test_ignorecase re_tapped ex_count_text" by code_simp
  have e4: "re_test_ignorecase re_tapped ex_plain_tapped_text" by code_simp
  have a1: "re_test re_two_basics (lower ex_two_basics_text)" by code_simp
  have a2: "\<not> re_test re_two_basics (lower ex_fastland_text) \<and>
            \<not> re_test re_checkland (lower ex_fastland_text) \<and>
            \<not> re_test re_pay_reveal (lower ex_fastland_text) \<and>
            re_test re_fastland (lower ex_fastland_text)" by code_simp
  have a3: "\<not> re_test re_two_basics (lower ex_count_text) \<and>
            \<not> re_test re_checkland (lower ex_count_text) \<and>
            \<not> re_test re_pay_reveal (lower ex_count_text) \<and>
            \<not> re_test re_fastland (lower ex_count_text) \<and>
            re_test re_count (lower ex_count_text)" by code_simp
  have a4: "\<not> re_test re_two_basics (lower ex_plain_tapped_text) \<and>
            \<not> re_test re_checkland (lower ex_plain_tapped_text) \<and>
            \<not> re_test re_pay_reveal (lower ex_plain_tapped_text) \<and>
            \<not> re_test re_fastland (lower ex_plain_tapped_text) \<and>
            \<not> re_test re_count (lower ex_plain_tapped_text) \<and>
            \<not> re_test re_opponent (lower ex_plain_tapped_text) \<and>
            \<not> re_test re_three_or_more (lower ex_plain_tapped_text)" by code_simp
  from land_exception_pass [OF land e1, of "''X''"] a1
  have "''TAPPED_ENTRY'' \<notin> set (assign_tags ''X'' ''Land'' ex_two_basics_text)" by blast
  moreover from land_exception_pass [OF land e2, of "''X''"] a2
  have "''TAPPED_ENTRY'' \<in> set (assign_tags ''X'' ''Land'' ex_fastland_text) \<and>
        ''COND_FASTLAND'' \<in> set (assign_tags ''X'' ''Land'' ex_fastland_text)" by blast
  moreover from land_exception_pass [OF land e3, of "''X''"] a3
  have "''TAPPED_ENTRY'' \<in> set (assign_tags ''X'' ''Land'' ex_count_text) \<and>
        (\<exists>g \<in> set basic_plurals.
           re_search re_count (lower ex_count_text) = Some g \<and>
           ''COND_COUNT_3_'' @ butlast (upper g) \<in> set (assign_tags ''X'' ''Land'' ex_count_text))"
    by blast
  moreover from land_exception_pass [OF land e4, of "''X''"] a4
  have "''TAPPED_ENTRY'' \<in> set (assign_tags ''X'' ''Land'' ex_plain_tapped_text)" by blast
  ultimately show ?thesis by blast
qed

text \<open>A text that matches the fastland phrase and also the pay/reveal rule, which the
  chain tries first, loses the tapped-entry tag and gains no \<open>COND_FASTLAND\<close>.\<close>

theorem land_exception_fastland_counterexample:
  "str_in ''Land'' ''Land'' \<and> re_test_ignorecase re_tapped ex_fast_pay_text \<and>
   re_test re_fastland (lower ex_fast_pay_text) \<and>
   assign_tags ''X'' ''Land'' ex_fast_pay_text = [''LAND'']"
  by code_simp

text \<open>
  C2.  On a battlefield with one eligible fetch-land and a library without any basic land,
  \<open>_resolve_fetch_lands\<close> sacrifices the fetch-land and returns \<open>True\<close>, but makes no call
  of \<open>random.shuffle\<close>: the number of shuffles stays at 0 and the library keeps its order,
  where a shuffle with the same random source would have changed it.
\<close>

theorem fetch_without_target_no_reshuffle:
  "resolve_fetch_lands rnd_zero 0 {} ex_fetch_none =
     (True, 0, ex_fetch_none\<lparr> battlefield := [], graveyard := [ex_wilds] \<rparr>) \<and>
   library (snd (snd (resolve_fetch_lands rnd_zero 0 {} ex_fetch_none))) = [ex_bolt, ex_bear] \<and>
   shuffle rnd_zero 0 (library ex_fetch_none) = [ex_bear, ex_bolt]"
  by code_simp

text \<open>
  C4.  Whatever the card name, type line and oracle text, the tags of \<open>assign_tags\<close> never
  contain \<open>FETCH_LAND\<close>; hence, when the tags of every card on the battlefield are the
  result of \<open>assign_tags\<close>, \<open>_resolve_fetch_lands\<close> finds no fetcher, returns \<open>False\<close> and
  leaves the state and the random generator untouched.
\<close>

theorem classifier_never_fetch_land:
  "''FETCH_LAND'' \<notin> set (assign_tags n ty txt) \<and>
   ((\<forall>c \<in> set (battlefield s). \<exists>n ty txt. tags c = assign_tags n ty txt) \<longrightarrow>
      filter (\<lambda>c. ''FETCH_LAND'' \<in> set (tags c)) (battlefield s) = [] \<and>
      resolve_fetch_lands rnd k tapped s = (False, k, s))"
proof (intro conjI impI)
  show "''FETCH_LAND'' \<notin> set (assign_tags n ty txt)" by (rule assign_tags_no_fetch)
next
  assume a: "\<forall>c \<in> set (battlefield s). \<exists>n ty txt. tags c = assign_tags n ty txt"
  have "''FETCH_LAND'' \<notin> set (tags c)" if c: "c \<in> set (battlefield s)" for c
  proof -
    from a c obtain m ty' txt' where "tags c = assign_tags m ty' txt'" by blast
    then show ?thesis by (simp add: assign_tags_no_fetch)
  qed
  then show e: "filter (\<lambda>c. ''FETCH_LAND'' \<in> set (tags c)) (battlefield s) = []"
    by (simp add: filter_empty_conv)
  then show "resolve_fetch_lands rnd k tapped s = (False, k, s)"
    by (simp add: resolve_fetch_lands_def)
qed

theorem classifier_never_fetch_land_witness:
  "''FETCH_LAND'' \<notin> set (assign_tags ''Evolving Wilds'' ''Land'' ex_wilds_text) \<and>
   battlefield ex_classified_state = [ex_classified_wilds] \<and>
   tags ex_classified_wilds = assign_tags ''Evolving Wilds'' ''Land'' ex_wilds_text \<and>
   resolve_fetch_lands rnd_zero 0 {} ex_classified_state = (False, 0, ex_classified_state)"
proof -
  have b: "battlefield ex_classified_state = [ex_classified_wilds]"
    by (simp add: ex_classified_state_def init_state_def)
  have t: "tags ex_classified_wilds = assign_tags ''Evolving Wilds'' ''Land'' ex_wilds_text"
    by (simp add: ex_classified_wilds_def mk_card_def)
  have h: "\<forall>c \<in> set (battlefield ex_classified_state).
      \<exists>n ty txt. tags c = assign_tags n ty txt"
    using t by (auto simp: b)
  from classifier_never_fetch_land
    [of "''Evolving Wilds''" "''Land''" ex_wilds_text ex_classified_state rnd_zero 0 "{}"] h b t
  show ?thesis by blast
qed

text \<open>
  C9.  In a pass of the main-phase loop the cast block works on the state left by the mana
  sweep.  If no non-land card of the hand is affordable with that pool, nothing is cast and
  the pass leaves the hand as it is.  Otherwise the card cast is a non-land, affordable
  card of the hand whose mana value is the highest among them and which comes first in
  hand order among those of that mana value; the cast succeeds and removes it from the
  hand.
\<close>

theorem cast_choice_highest_first:
  "(choose_spell s = None \<longleftrightarrow>
      (\<forall>d \<in> set (hand s). is_land d \<or> \<not> can_afford s (mana_cost d))) \<and>
   (choose_spell s = None \<longrightarrow> cast_phase s = Inr (False, s)) \<and>
   (\<forall>c. choose_spell s = Some c \<longrightarrow>
      c \<in> set (hand s) \<and> \<not> is_land c \<and> can_afford s (mana_cost c) \<and>
      (\<forall>d \<in> set (hand s). \<not> is_land d \<and> can_afford s (mana_cost d) \<longrightarrow> cmc d \<le> cmc c) \<and>
      c = hd (filter (\<lambda>d. \<not> is_land d \<and> can_afford s (mana_cost d) \<and> cmc d = cmc c) (hand s)) \<and>
      cast_phase s = cast_spell s c (mana_cost c) \<and>
      (\<exists>s'. cast_phase s = Inr (True, s') \<and> hand s' = list_remove c (hand s))) \<and>
   (\<forall>again k' tapped' s'.
      loop_pass rnd (k, tapped, s0) = Inr (again, k', tapped', s') \<longrightarrow>
      (case choose_spell (fst (snd (mana_sweep (tapped, s0)))) of
         None \<Rightarrow> hand s' = hand s0
       | Some c \<Rightarrow> hand s' = list_remove c (hand s0)))"
proof (intro conjI allI impI)
  show "choose_spell s = None \<longleftrightarrow> (\<forall>d \<in> set (hand s). is_land d \<or> \<not> can_afford s (mana_cost d))"
    by (auto simp: choose_spell_None affordable_def filter_empty_conv)
next
  assume "choose_spell s = None"
  then show "cast_phase s = Inr (False, s)" by (simp add: cast_phase_def)
next
  fix c assume c: "choose_spell s = Some c"
  note f = choose_spell_first [OF c]
  show "c \<in> set (hand s)" "\<not> is_land c" "can_afford s (mana_cost c)"
    "\<forall>d \<in> set (hand s). \<not> is_land d \<and> can_afford s (mana_cost d) \<longrightarrow> cmc d \<le> cmc c"
    "c = hd (filter (\<lambda>d. \<not> is_land d \<and> can_afford s (mana_cost d) \<and> cmc d = cmc c) (hand s))"
    by (rule f)+
  show "cast_phase s = cast_spell s c (mana_cost c)" using c by (simp add: cast_phase_def)
  show "\<exists>s'. cast_phase s = Inr (True, s') \<and> hand s' = list_remove c (hand s)"
    by (rule cast_phase_cases [of s]) (use c in simp_all)
next
  fix again k' tapped' s'
  assume "loop_pass rnd (k, tapped, s0) = Inr (again, k', tapped', s')"
  then show "case choose_spell (fst (snd (mana_sweep (tapped, s0)))) of
         None \<Rightarrow> hand s' = hand s0
       | Some c \<Rightarrow> hand s' = list_remove c (hand s0)"
    by (rule loop_pass_hand)
qed

theorem cast_choice_highest_first_witness:
  "choose_spell ex_cast_state = Some ex_bear \<and>
   hand ex_cast_state = [ex_forest, ex_bolt, ex_bear, ex_bear_twin, ex_dragon] \<and>
   (\<exists>s'. cast_phase ex_cast_state = Inr (True, s') \<and>
      hand s' = [ex_forest, ex_bolt, ex_bear_twin, ex_dragon]) \<and>
   choose_spell ex_fetch_none = None \<and> cast_phase ex_fetch_none = Inr (False, ex_fetch_none) \<and>
   (\<exists>again k' tapped' s'.
      loop_pass rnd_zero (0, {}, ex_cast_state) = Inr (again, k', tapped', s') \<and>
      hand s' = [ex_forest, ex_bolt, ex_bear_twin, ex_dragon])"
proof -
  have c: "choose_spell ex_cast_state = Some ex_bear" by code_simp
  have h: "hand ex_cast_state = [ex_forest, ex_bolt, ex_bear, ex_bear_twin, ex_dragon]"
    by (simp add: ex_cast_state_def init_state_def)
  have r: "list_remove ex_bear (hand ex_cast_state) = [ex_forest, ex_bolt, ex_bear_twin, ex_dragon]"
    by code_simp
  have n: "choose_spell ex_fetch_none = None" by code_simp
  have m: "choose_spell (fst (snd (mana_sweep ({}, ex_cast_state)))) = Some ex_bear" by code_simp
  obtain again k' tapped' s' where
    p: "loop_pass rnd_zero (0, {}, ex_cast_state) = Inr (again, k', tapped', s')"
    using loop_pass_no_error [of rnd_zero "(0, {}, ex_cast_state)"]
    by (cases "loop_pass rnd_zero (0, {}, ex_cast_state)") auto
  note inst = cast_choice_highest_first [of ex_cast_state rnd_zero 0 "{}" ex_cast_state]
  from inst c have "\<exists>s'. cast_phase ex_cast_state = Inr (True, s') \<and>
      hand s' = list_remove ex_bear (hand ex_cast_state)"
    by blast
  then have "\<exists>s'. cast_phase ex_cast_state = Inr (True, s') \<and>
      hand s' = [ex_forest, ex_bolt, ex_bear_twin, ex_dragon]"
    by (simp only: r)
  moreover from inst p have "case choose_spell (fst (snd (mana_sweep ({}, ex_cast_state)))) of
         None \<Rightarrow> hand s' = hand ex_cast_state
       | Some c \<Rightarrow> hand s' = list_remove c (hand ex_cast_state)"
    by blast
  then have "hand s' = [ex_forest, ex_bolt, ex_bear_twin, ex_dragon]"
    by (simp only: m r option.case)
  moreover from cast_choice_highest_first [of ex_fetch_none rnd_zero 0 "{}" ex_fetch_none] n
  have "cast_phase ex_fetch_none = Inr (False, ex_fetch_none)" by blast
  ultimately show ?thesis using c h n p by blast
qed

text \<open>
  C7 (as the code has it).  The main-phase loop terminates from every state and never
  raises: it makes \<open>loop_passes\<close> passes, of which all but the last go on and the last
  breaks and yields the result.  The number of passes, the last one included, is at most one more than the
  sum of the battlefield size, twice the hand size (a card can be cast in one pass and
  tapped for mana in a later one) and the number of fetch-lands on the battlefield, in the
  hand and in the library, all taken at the start of the main phase.  Every pass but the
  last taps an object that was not tapped, casts a card of the hand, or sacrifices a
  fetch-land of the battlefield.
\<close>

theorem main_loop_terminates_bounded:
  "(\<exists>k' s'. main_loop rnd (k, tapped, s) = Inr (k', s')) \<and>
   (\<exists>k' s'. main_phase_heuristic rnd (k, s) = Inr (k', s')) \<and>
   (\<exists>x'. loop_pass rnd (pass_start rnd (loop_passes rnd (k, tapped, s) - 1) (k, tapped, s)) =
           Inr (False, x') \<and>
         main_loop rnd (k, tapped, s) = Inr (fst x', snd (snd x'))) \<and>
   (\<forall>i < loop_passes rnd (k, tapped, s) - 1.
      \<exists>y. loop_pass rnd (pass_start rnd i (k, tapped, s)) = Inr (True, y)) \<and>
   loop_passes rnd (k, tapped, s) \<le> Suc (loop_budget tapped s) \<and>
   loop_budget tapped s \<le>
     length (battlefield s) + 2 * length (hand s) + length (filter is_fetcher (battlefield s)) +
     length (filter is_fetcher (hand s)) + length (filter is_fetcher (library s)) \<and>
   loop_passes rnd (k, {}, land_drop s) \<le>
     Suc (length (battlefield s) + 2 * length (hand s) +
          length (filter is_fetcher (battlefield s)) + length (filter is_fetcher (hand s)) +
          length (filter is_fetcher (library s))) \<and>
   (\<forall>k' tapped' s'.
      loop_pass rnd (k, tapped, s) = Inr (True, k', tapped', s') \<longrightarrow>
      tapped \<subset> tapped' \<or> length (hand s') < length (hand s) \<or>
      (\<exists>f \<in> set (battlefield s). is_fetcher f \<and> graveyard s' = graveyard s @ [f]))"
proof (intro conjI allI impI)
  show "\<exists>k' s'. main_loop rnd (k, tapped, s) = Inr (k', s')"
    using main_loop_faces [of rnd "(k, tapped, s)"] by blast
  show "\<exists>k' s'. main_phase_heuristic rnd (k, s) = Inr (k', s')"
    using main_loop_faces [of rnd "(k, {}, land_drop s)"]
    by (auto simp: main_phase_heuristic_def)
  show "\<exists>x'. loop_pass rnd (pass_start rnd (loop_passes rnd (k, tapped, s) - 1) (k, tapped, s)) =
           Inr (False, x') \<and>
         main_loop rnd (k, tapped, s) = Inr (fst x', snd (snd x'))"
    using main_loop_passes [of rnd "(k, tapped, s)"] by blast
  show "loop_passes rnd (k, tapped, s) \<le> Suc (loop_budget tapped s)"
    using loop_passes_bound [of rnd "(k, tapped, s)"] by simp
  have "length (filter (tappable tapped (cards_played_this_turn s)) (battlefield s))
      \<le> length (battlefield s)" by (rule length_filter_le)
  then show "loop_budget tapped s \<le>
     length (battlefield s) + 2 * length (hand s) + length (filter is_fetcher (battlefield s)) +
     length (filter is_fetcher (hand s)) + length (filter is_fetcher (library s))"
    unfolding loop_budget_def by linarith
  show "loop_passes rnd (k, {}, land_drop s) \<le>
     Suc (length (battlefield s) + 2 * length (hand s) +
          length (filter is_fetcher (battlefield s)) + length (filter is_fetcher (hand s)) +
          length (filter is_fetcher (library s)))"
    using loop_passes_bound [of rnd "(k, {}, land_drop s)"] land_drop_budget [of s] by simp
next
  fix i assume "i < loop_passes rnd (k, tapped, s) - 1"
  then show "\<exists>y. loop_pass rnd (pass_start rnd i (k, tapped, s)) = Inr (True, y)"
    using main_loop_passes [of rnd "(k, tapped, s)"] by blast
next
  fix k' tapped' s'
  assume "loop_pass rnd (k, tapped, s) = Inr (True, k', tapped', s')"
  then show "tapped \<subset> tapped' \<or> length (hand s') < length (hand s) \<or>
      (\<exists>f \<in> set (battlefield s). is_fetcher f \<and> graveyard s' = graveyard s @ [f])"
    by (rule loop_pass_progress)
qed

theorem main_loop_terminates_bounded_witness:
  "loop_pass rnd_zero (0, {}, ex_crypt_state) =
     Inr (True, 0, {},
       ex_crypt_state\<lparr> hand := [], battlefield := [ex_crypt],
         mana_pool := [(''colorless'', 0)], cards_played_this_turn := [ex_crypt] \<rparr>) \<and>
   length (hand (ex_crypt_state\<lparr> hand := [], battlefield := [ex_crypt],
         mana_pool := [(''colorless'', 0)], cards_played_this_turn := [ex_crypt] \<rparr>))
     < length (hand ex_crypt_state) \<and>
   (\<exists>k' s'. main_loop rnd_zero (0, {}, ex_crypt_state) = Inr (k', s')) \<and>
   loop_passes rnd_zero (0, {}, land_drop ex_crypt_state) \<le> 3 \<and>
   1 < loop_passes rnd_zero (0, {}, ex_crypt_state) - 1 \<and>
   (\<exists>y. loop_pass rnd_zero (pass_start rnd_zero 1 (0, {}, ex_crypt_state)) = Inr (True, y))"
proof -
  have i: "1 < loop_passes rnd_zero (0, {}, ex_crypt_state) - 1" by code_simp
  have p: "loop_pass rnd_zero (0, {}, ex_crypt_state) =
     Inr (True, 0, {},
       ex_crypt_state\<lparr> hand := [], battlefield := [ex_crypt],
         mana_pool := [(''colorless'', 0)], cards_played_this_turn := [ex_crypt] \<rparr>)"
    by code_simp
  have h: "length (hand (ex_crypt_state\<lparr> hand := [], battlefield := [ex_crypt],
         mana_pool := [(''colorless'', 0)], cards_played_this_turn := [ex_crypt] \<rparr>))
     < length (hand ex_crypt_state)"
    by (simp add: ex_crypt_state_def init_state_def)
  have b: "Suc (length (battlefield ex_crypt_state) + 2 * length (hand ex_crypt_state) +
          length (filter is_fetcher (battlefield ex_crypt_state)) +
          length (filter is_fetcher (hand ex_crypt_state)) +
          length (filter is_fetcher (library ex_crypt_state))) = 3"
    by code_simp
  note inst = main_loop_terminates_bounded [of rnd_zero 0 "{}" ex_crypt_state]
  from inst have t1: "\<exists>k' s'. main_loop rnd_zero (0, {}, ex_crypt_state) = Inr (k', s')"
    by (rule conjunct1)
  from inst have "loop_passes rnd_zero (0, {}, land_drop ex_crypt_state) \<le>
     Suc (length (battlefield ex_crypt_state) + 2 * length (hand ex_crypt_state) +
          length (filter is_fetcher (battlefield ex_crypt_state)) +
          length (filter is_fetcher (hand ex_crypt_state)) +
          length (filter is_fetcher (library ex_crypt_state)))"
    by blast
  then have t2: "loop_passes rnd_zero (0, {}, land_drop ex_crypt_state) \<le> 3"
    unfolding b .
  from inst i
  have t3: "\<exists>y. loop_pass rnd_zero (pass_start rnd_zero 1 (0, {}, ex_crypt_state)) = Inr (True, y)"
    by blast
  from p h t1 t2 i t3 show ?thesis by (intro conjI)
qed

text \<open>With an empty battlefield and a free mana rock as the only card in hand the loop makes
  three passes (cast the rock; tap it; find nothing to do), two of them productive, while
  battlefield size plus hand size plus fetch-lands on the battlefield is one.\<close>

theorem main_loop_bound_counterexample:
  "loop_passes rnd_zero (0, {}, land_drop ex_crypt_state) = 3 \<and>
   length (battlefield ex_crypt_state) + length (hand ex_crypt_state) +
     length (filter is_fetcher (battlefield ex_crypt_state)) = 1"
  by code_simp

text \<open>
  What every game keeps.  A game started from a deck and run for any number of turns
  never raises, and at every turn boundary the four zones together hold as many cards as
  the library that \<open>start_game\<close> built from the deck (the deck without the cards equal to
  the commander set aside), and hold the same card values: the multiset of card faces
  (every field of a card but its mutable tags and its object identity) of the four zones
  is that of this library.  \<open>draw_card\<close>, \<open>play_land\<close>, \<open>cast_spell\<close> and fetch resolution
  each keep this multiset.
\<close>

theorem zone_values_preserved:
  "(\<exists>k' s'. play_game rnd deck cmd n = Inr (k', s') \<and>
      length (library s') + length (hand s') + length (battlefield s') + length (graveyard s') =
        length (deck_library deck cmd) \<and>
      zone_faces s' = mset (map card_face (deck_library deck cmd))) \<and>
   deck_library deck cmd =
     (case find_commander deck cmd of
        None \<Rightarrow> deck
      | Some m \<Rightarrow> filter (\<lambda>c. \<not> card_eq c m) deck) \<and>
   zone_faces (snd (draw_card s)) = zone_faces s \<and>
   zone_faces (snd (play_land s c)) = zone_faces s \<and>
   (case cast_spell s c cost of
      Inl e \<Rightarrow> True
    | Inr (ok, s') \<Rightarrow> zone_faces s' = zone_faces s) \<and>
   zone_faces (snd (snd (resolve_fetch_lands rnd k tapped s))) = zone_faces s"
proof (intro conjI)
  obtain k0 s0 where st: "start_game rnd (0, init_state) deck cmd = (k0, s0)"
    by (cases "start_game rnd (0, init_state) deck cmd")
  from start_game_faces [of rnd 0 deck cmd] st
  have f0: "zone_faces s0 = mset (map card_face (deck_library deck cmd))" by simp
  from run_turns_faces [of rnd n k0 s0] obtain k' s' where
    r: "run_turns rnd n (k0, s0) = Inr (k', s')" and f: "zone_faces s' = zone_faces s0" by blast
  have "length (library s') + length (hand s') + length (battlefield s') + length (graveyard s') =
      size (zone_faces s')" by (rule zones_size)
  also have "\<dots> = length (deck_library deck cmd)" by (simp add: f f0)
  finally show "\<exists>k' s'. play_game rnd deck cmd n = Inr (k', s') \<and>
      length (library s') + length (hand s') + length (battlefield s') + length (graveyard s') =
        length (deck_library deck cmd) \<and>
      zone_faces s' = mset (map card_face (deck_library deck cmd))"
    using r f f0 st by (simp add: play_game_def)
  show "deck_library deck cmd =
     (case find_commander deck cmd of
        None \<Rightarrow> deck
      | Some m \<Rightarrow> filter (\<lambda>c. \<not> card_eq c m) deck)"
    by (simp add: deck_library_def split: option.splits)
  show "zone_faces (snd (draw_card s)) = zone_faces s" by (rule draw_card_faces)
  show "zone_faces (snd (play_land s c)) = zone_faces s" by (rule play_land_faces)
  show "case cast_spell s c cost of
      Inl e \<Rightarrow> True
    | Inr (ok, s') \<Rightarrow> zone_faces s' = zone_faces s"
    by (auto simp: cast_spell_faces split: sum.splits)
  show "zone_faces (snd (snd (resolve_fetch_lands rnd k tapped s))) = zone_faces s"
    by (rule resolve_fetch_faces)
qed

theorem zone_values_preserved_instance:
  "length (deck_library ex_deck (Some ex_bear)) = 8 \<and>
   (\<exists>k' s'. play_game rnd_zero ex_deck (Some ex_bear) 3 = Inr (k', s') \<and>
      length (library s') + length (hand s') + length (battlefield s') + length (graveyard s') = 8)"
proof -
  have l: "length (deck_library ex_deck (Some ex_bear)) = 8" by code_simp
  have "\<exists>k' s'. play_game rnd_zero ex_deck (Some ex_bear) 3 = Inr (k', s') \<and>
      length (library s') + length (hand s') + length (battlefield s') + length (graveyard s') =
        length (deck_library ex_deck (Some ex_bear)) \<and>
      zone_faces s' = mset (map card_face (deck_library ex_deck (Some ex_bear)))"
    using zone_values_preserved [of rnd_zero ex_deck "Some ex_bear" 3 ex_state ex_bolt "[]" 0 "{}"]
    by (rule conjunct1)
  then obtain k' s' where "play_game rnd_zero ex_deck (Some ex_bear) 3 = Inr (k', s')"
    "length (library s') + length (hand s') + length (battlefield s') + length (graveyard s') = 8"
    unfolding l by blast
  with l show ?thesis by blast
qed

text \<open>
  C6.  The zone lists are searched and shortened by equality of cards, not by identity:
  \<open>battlefield.remove(fetcher)\<close> removes the first card equal to the fetcher.  In the game
  below the deck holds two equal copies of a fetch-land (objects 21 and 22).  Copy 21 is
  played on turn 1 and tapped for mana on turn 2; copy 22 is then fetched onto the
  battlefield and selected as the next fetcher, since it is the one not tapped.  Its
  sacrifice removes copy 21 from the battlefield and appends copy 22 to the graveyard,
  and the following pass does the same again.  After two turns the ten cards of the deck
  are still counted in the zones, but object 22 is in the graveyard twice and object 21 is
  in no zone.
\<close>

theorem zone_partition_equal_copies:
  "distinct (map ident ex_twin_deck) \<and> length ex_twin_deck = 10 \<and>
   card_eq ex_grove ex_grove_copy \<and>
   (case play_game rnd_keep ex_twin_deck None 2 of
      Inl e \<Rightarrow> False
    | Inr (k, s) \<Rightarrow>
        map ident (library s) = [] \<and>
        map ident (hand s) = [31, 32, 33, 34, 35, 36, 37] \<and>
        map ident (battlefield s) = [] \<and>
        map ident (graveyard s) = [23, 22, 22])"
  by code_simp

end
